theory Spec2Isabelle
  imports Main "HOL-Library.Word"
begin

unbundle bit_operations_syntax

section \<open>Bytes and strings\<close>

text \<open>
  Go strings and byte slices are sequences of bytes.  Strings are modelled as
  \<open>string\<close> (lists of 8-bit characters), byte slices as lists of 8-bit words;
  \<open>bytes_of\<close> is the conversion \<^verbatim>\<open>[]byte(s)\<close>.
\<close>

type_synonym byte = "8 word"
type_synonym bytes = "8 word list"
type_synonym u32 = "32 word"

definition bytes_of :: "string \<Rightarrow> bytes" where
  "bytes_of s = map (\<lambda>c. of_nat (of_char c)) s"

section \<open>Library code used by the crypto package\<close>

subsection \<open>SHA-256 (crypto/sha256, FIPS 180-4)\<close>

definition be32 :: "bytes \<Rightarrow> u32" where
  "be32 bs = foldl (\<lambda>acc b. push_bit 8 acc OR ucast b) 0 (take 4 bs)"

definition be_bytes32 :: "u32 \<Rightarrow> bytes" where
  "be_bytes32 w = [ucast (drop_bit 24 w), ucast (drop_bit 16 w), ucast (drop_bit 8 w), ucast w]"

definition be_bytes64 :: "64 word \<Rightarrow> bytes" where
  "be_bytes64 w = map (\<lambda>i. ucast (drop_bit (8 * (7 - i)) w)) [0..<8]"

text \<open>
  The round constants: the first 32 bits of the fractional parts of the cube roots of the
  first 64 primes, here in decimal.
\<close>

definition sha256_K :: "u32 list" where
  "sha256_K = [
    1116352408, 1899447441, 3049323471, 3921009573, 961987163, 1508970993,
    2453635748, 2870763221, 3624381080, 310598401, 607225278, 1426881987,
    1925078388, 2162078206, 2614888103, 3248222580, 3835390401, 4022224774,
    264347078, 604807628, 770255983, 1249150122, 1555081692, 1996064986,
    2554220882, 2821834349, 2952996808, 3210313671, 3336571891, 3584528711,
    113926993, 338241895, 666307205, 773529912, 1294757372, 1396182291,
    1695183700, 1986661051, 2177026350, 2456956037, 2730485921, 2820302411,
    3259730800, 3345764771, 3516065817, 3600352804, 4094571909, 275423344,
    430227734, 506948616, 659060556, 883997877, 958139571, 1322822218,
    1537002063, 1747873779, 1955562222, 2024104815, 2227730452, 2361852424,
    2428436474, 2756734187, 3204031479, 3329325298]"

type_synonym sha_state = "u32 \<times> u32 \<times> u32 \<times> u32 \<times> u32 \<times> u32 \<times> u32 \<times> u32"

text \<open>
  The initial hash value: the first 32 bits of the fractional parts of the square roots of
  the first 8 primes.
\<close>

definition sha256_init :: sha_state where
  "sha256_init = (1779033703, 3144134277, 1013904242, 2773480762,
                  1359893119, 2600822924, 528734635, 1541459225)"

definition Ch :: "u32 \<Rightarrow> u32 \<Rightarrow> u32 \<Rightarrow> u32" where
  "Ch x y z = (x AND y) XOR (NOT x AND z)"

definition Maj :: "u32 \<Rightarrow> u32 \<Rightarrow> u32 \<Rightarrow> u32" where
  "Maj x y z = (x AND y) XOR (x AND z) XOR (y AND z)"

definition Sigma0 :: "u32 \<Rightarrow> u32" where
  "Sigma0 x = word_rotr 2 x XOR word_rotr 13 x XOR word_rotr 22 x"

definition Sigma1 :: "u32 \<Rightarrow> u32" where
  "Sigma1 x = word_rotr 6 x XOR word_rotr 11 x XOR word_rotr 25 x"

definition sigma0 :: "u32 \<Rightarrow> u32" where
  "sigma0 x = word_rotr 7 x XOR word_rotr 18 x XOR drop_bit 3 x"

definition sigma1 :: "u32 \<Rightarrow> u32" where
  "sigma1 x = word_rotr 17 x XOR word_rotr 19 x XOR drop_bit 10 x"

fun sha256_extend :: "nat \<Rightarrow> u32 list \<Rightarrow> u32 list" where
  "sha256_extend 0 ws = ws"
| "sha256_extend (Suc n) ws =
     (let t = length ws
      in sha256_extend n
           (ws @ [sigma1 (ws ! (t - 2)) + ws ! (t - 7) + sigma0 (ws ! (t - 15)) + ws ! (t - 16)]))"

definition sha256_schedule :: "bytes \<Rightarrow> u32 list" where
  "sha256_schedule block =
     sha256_extend 48 (map (\<lambda>i. be32 (drop (4 * i) block)) [0..<16])"

fun sha256_round :: "u32 \<times> u32 \<Rightarrow> sha_state \<Rightarrow> sha_state" where
  "sha256_round (k, w) (a, b, c, d, e, f, g, h) =
     (let t1 = h + Sigma1 e + Ch e f g + k + w;
          t2 = Sigma0 a + Maj a b c
      in (t1 + t2, a, b, c, d + t1, e, f, g))"

fun sha256_add :: "sha_state \<Rightarrow> sha_state \<Rightarrow> sha_state" where
  "sha256_add (a, b, c, d, e, f, g, h) (a', b', c', d', e', f', g', h') =
     (a + a', b + b', c + c', d + d', e + e', f + f', g + g', h + h')"

definition sha256_block :: "bytes \<Rightarrow> sha_state \<Rightarrow> sha_state" where
  "sha256_block block st =
     sha256_add st (fold sha256_round (zip sha256_K (sha256_schedule block)) st)"

definition sha256_pad :: "bytes \<Rightarrow> bytes" where
  "sha256_pad m =
     m @ [0x80] @ replicate ((119 - length m mod 64) mod 64) 0
       @ be_bytes64 (8 * of_nat (length m))"

definition sha256_blocks :: "bytes \<Rightarrow> bytes list" where
  "sha256_blocks p = map (\<lambda>i. take 64 (drop (64 * i) p)) [0..<length p div 64]"

fun sha256_digest :: "sha_state \<Rightarrow> bytes" where
  "sha256_digest (a, b, c, d, e, f, g, h) =
     concat (map be_bytes32 [a, b, c, d, e, f, g, h])"

definition sha256_Sum :: "bytes \<Rightarrow> bytes" where
  "sha256_Sum m = sha256_digest (fold sha256_block (sha256_blocks (sha256_pad m)) sha256_init)"

subsection \<open>HMAC (crypto/hmac, RFC 2104) over SHA-256\<close>

definition hmac_sha256 :: "bytes \<Rightarrow> bytes \<Rightarrow> bytes" where
  "hmac_sha256 key msg =
     (let k0 = (if length key > 64 then sha256_Sum key else key);
          kp = k0 @ replicate (64 - length k0) 0;
          ipad = map (\<lambda>b. b XOR 0x36) kp;
          opad = map (\<lambda>b. b XOR 0x5c) kp
      in sha256_Sum (opad @ sha256_Sum (ipad @ msg)))"

subsection \<open>The HKDF reader (golang.org/x/crypto/hkdf)\<close>

text \<open>
  \<^verbatim>\<open>hkdf.New(hash, secret, salt, info)\<close> extracts a pseudorandom key and returns a
  reader that expands it.  A \<^verbatim>\<open>nil\<close> salt is replaced by \<^verbatim>\<open>hash.Size()\<close> zero bytes.
  The reader keeps the block counter in a Go \<^verbatim>\<open>byte\<close>, the previous block and the
  unread rest of it.
\<close>

datatype error =
    EntropyLimitReached
  | KeySizeError nat
  | BlockSizeError
  | CorruptInput
  | RandReadError
  | MarshalError
  | FailedToDecodeMasterSecret error
  | FailedToDeriveKey error
  | FailedToCreateCipher error
  | FailedToCreateGCM error
  | FailedToGenerateNonce error
  | FailedToMarshalData error

record hkdf =
  hk_expander :: bytes
  hk_size :: nat
  hk_info :: bytes
  hk_counter :: byte
  hk_prev :: bytes
  hk_buf :: bytes

definition hkdf_Extract :: "bytes \<Rightarrow> bytes option \<Rightarrow> bytes" where
  "hkdf_Extract secret salt =
     hmac_sha256 (case salt of None \<Rightarrow> replicate 32 0 | Some s \<Rightarrow> s) secret"

definition hkdf_Expand :: "bytes \<Rightarrow> bytes \<Rightarrow> hkdf" where
  "hkdf_Expand pseudorandomKey info =
     \<lparr>hk_expander = pseudorandomKey, hk_size = 32, hk_info = info,
      hk_counter = 1, hk_prev = [], hk_buf = []\<rparr>"

definition hkdf_New :: "bytes \<Rightarrow> bytes option \<Rightarrow> bytes \<Rightarrow> hkdf" where
  "hkdf_New secret salt info = hkdf_Expand (hkdf_Extract secret salt) info"

definition hkdf_next :: "hkdf \<Rightarrow> hkdf" where
  "hkdf_next f =
     (let t = hmac_sha256 (hk_expander f) (hk_prev f @ hk_info f @ [hk_counter f])
      in f\<lparr>hk_prev := t, hk_counter := hk_counter f + 1, hk_buf := t\<rparr>)"

lemma length_sha256_digest: "length (sha256_digest st) = 32"
  by (cases st rule: sha256_digest.cases) (simp add: be_bytes32_def)

lemma length_sha256_Sum: "length (sha256_Sum m) = 32"
  by (simp add: sha256_Sum_def length_sha256_digest)

lemma length_hmac_sha256: "length (hmac_sha256 key msg) = 32"
  by (simp add: hmac_sha256_def Let_def length_sha256_Sum)

lemma length_hkdf_next_buf: "length (hk_buf (hkdf_next f)) = 32"
  by (simp add: hkdf_next_def Let_def length_hmac_sha256)

text \<open>
  The loop \<^verbatim>\<open>for len(p) > 0\<close> of \<^verbatim>\<open>Read\<close>: \<open>remaining\<close> is \<^verbatim>\<open>len(p)\<close>, \<open>n\<close> the
  result of the last \<^verbatim>\<open>copy\<close>, \<open>out\<close> the bytes written so far.
\<close>

function hkdf_fill :: "hkdf \<Rightarrow> nat \<Rightarrow> nat \<Rightarrow> bytes \<Rightarrow> hkdf \<times> nat \<times> bytes" where
  "hkdf_fill f remaining n out =
     (if remaining = 0 then (f, n, out)
      else hkdf_fill (hkdf_next f)
             (remaining - min remaining (length (hk_buf (hkdf_next f))))
             (min remaining (length (hk_buf (hkdf_next f))))
             (out @ take (min remaining (length (hk_buf (hkdf_next f)))) (hk_buf (hkdf_next f))))"
  by pat_completeness auto
termination
proof (relation "measure (\<lambda>(f, remaining, n, out). remaining)")
  show "wf (measure (\<lambda>(f, remaining, n, out). remaining))"
    by simp
next
  fix f :: hkdf and remaining n :: nat and out :: bytes
  assume "remaining \<noteq> 0"
  then show "((hkdf_next f, remaining - min remaining (length (hk_buf (hkdf_next f))),
           min remaining (length (hk_buf (hkdf_next f))),
           out @ take (min remaining (length (hk_buf (hkdf_next f)))) (hk_buf (hkdf_next f))),
          (f, remaining, n, out))
         \<in> measure (\<lambda>(f, remaining, n, out). remaining)"
    by (simp add: length_hkdf_next_buf)
qed

definition hkdf_Read :: "hkdf \<Rightarrow> nat \<Rightarrow> error + bytes \<times> hkdf" where
  "hkdf_Read f need =
     (if length (hk_buf f) + unat (255 - hk_counter f + 1) * hk_size f < need
      then Inl EntropyLimitReached
      else
        (let n0 = min need (length (hk_buf f))
         in case hkdf_fill f (need - n0) n0 (take n0 (hk_buf f)) of
              (f', n, out) \<Rightarrow> Inr (out, f'\<lparr>hk_buf := drop n (hk_buf f')\<rparr>)))"

text \<open>
  \<^verbatim>\<open>io.ReadFull(r, buf)\<close> reads until \<^verbatim>\<open>buf\<close> is full or the reader fails; the HKDF
  reader delivers the whole request in one \<^verbatim>\<open>Read\<close> or fails.
\<close>

definition io_ReadFull :: "hkdf \<Rightarrow> nat \<Rightarrow> error + bytes \<times> hkdf" where
  "io_ReadFull r n = hkdf_Read r n"

section \<open>internal/crypto: key derivation\<close>

definition KeyLength :: nat where
  "KeyLength = 32"

definition NonceLength :: nat where
  "NonceLength = 12"

definition deriveKeyForDate :: "bytes \<Rightarrow> string \<Rightarrow> string \<Rightarrow> error + bytes" where
  "deriveKeyForDate masterSecret appKey date =
     (let info = ''nexus-enigma-'' @ appKey @ ''-'' @ date;
          hkdfReader = hkdf_New masterSecret None (bytes_of info)
      in case io_ReadFull hkdfReader KeyLength of
           Inl err \<Rightarrow> Inl (FailedToDeriveKey err)
         | Inr (key, _) \<Rightarrow> Inr key)"

text \<open>
  The specification's reading of the same key: RFC 5869 with SHA-256
  (\<open>HashLen = 32\<close>).  \<open>T(0)\<close> is empty, \<open>T(i) = HMAC(PRK, T(i-1) | info | i)\<close>,
  the output keying material is the first \<open>L\<close> octets of \<open>T(1) | T(2) | ...\<close>,
  and a salt that is not provided is \<open>HashLen\<close> zero octets.
\<close>

fun hkdf_T :: "bytes \<Rightarrow> bytes \<Rightarrow> nat \<Rightarrow> bytes" where
  "hkdf_T prk info 0 = []"
| "hkdf_T prk info (Suc i) = hmac_sha256 prk (hkdf_T prk info i @ info @ [of_nat (Suc i)])"

definition HKDF_Extract_rfc :: "bytes \<Rightarrow> bytes \<Rightarrow> bytes" where
  "HKDF_Extract_rfc salt ikm = hmac_sha256 salt ikm"

definition HKDF_Expand_rfc :: "bytes \<Rightarrow> bytes \<Rightarrow> nat \<Rightarrow> bytes" where
  "HKDF_Expand_rfc prk info L =
     take L (concat (map (hkdf_T prk info) [1..<Suc ((L + 31) div 32)]))"

definition HKDF_SHA256_no_salt :: "bytes \<Rightarrow> bytes \<Rightarrow> nat \<Rightarrow> bytes" where
  "HKDF_SHA256_no_salt ikm info L =
     HKDF_Expand_rfc (HKDF_Extract_rfc (replicate 32 0) ikm) info L"

section \<open>Library code used by EncryptPayload\<close>

subsection \<open>encoding/base64, StdEncoding\<close>

text \<open>
  The standard alphabet with \<open>=\<close> padding.  \<^verbatim>\<open>DecodeString\<close> skips carriage returns
  and line feeds wherever they stand, decodes quanta of four characters, accepts padding
  only in the last quantum and nothing after it, and does not check the unused bits of
  the last quantum (the encoding is not strict).
\<close>

definition b64_alphabet :: string where
  "b64_alphabet = ''ABCDEFGHIJKLMNOPQRSTUVWXYZabcdefghijklmnopqrstuvwxyz0123456789+/''"

definition b64_char :: "nat \<Rightarrow> char" where
  "b64_char i = b64_alphabet ! i"

definition b64_index :: "char \<Rightarrow> nat option" where
  "b64_index c = map_of (zip b64_alphabet [0..<64]) c"

fun b64_EncodeToString :: "bytes \<Rightarrow> string" where
  "b64_EncodeToString [] = []"
| "b64_EncodeToString [a] =
     [b64_char (unat a div 4), b64_char (unat a mod 4 * 16), CHR ''='', CHR ''='']"
| "b64_EncodeToString [a, b] =
     [b64_char (unat a div 4), b64_char (unat a mod 4 * 16 + unat b div 16),
      b64_char (unat b mod 16 * 4), CHR ''='']"
| "b64_EncodeToString (a # b # c # rest) =
     [b64_char (unat a div 4), b64_char (unat a mod 4 * 16 + unat b div 16),
      b64_char (unat b mod 16 * 4 + unat c div 64), b64_char (unat c mod 64)]
     @ b64_EncodeToString rest"

fun b64_quanta :: "string \<Rightarrow> bytes option" where
  "b64_quanta [] = Some []"
| "b64_quanta (a # b # c # d # rest) =
     (case (b64_index a, b64_index b) of
        (Some x, Some y) \<Rightarrow>
          if c = CHR ''='' then
            (if d = CHR ''='' \<and> rest = [] then Some [of_nat (x * 4 + y div 16)] else None)
          else
            (case b64_index c of
               None \<Rightarrow> None
             | Some z \<Rightarrow>
                 if d = CHR ''='' then
                   (if rest = []
                    then Some [of_nat (x * 4 + y div 16), of_nat (y mod 16 * 16 + z div 4)]
                    else None)
                 else
                   (case b64_index d of
                      None \<Rightarrow> None
                    | Some u \<Rightarrow>
                        map_option
                          (\<lambda>bs. [of_nat (x * 4 + y div 16), of_nat (y mod 16 * 16 + z div 4),
                                 of_nat (z mod 4 * 64 + u)] @ bs)
                          (b64_quanta rest)))
      | _ \<Rightarrow> None)"
| "b64_quanta _ = None"

definition b64_DecodeString :: "string \<Rightarrow> error + bytes" where
  "b64_DecodeString s =
     (case b64_quanta (filter (\<lambda>c. c \<noteq> CHR 0x0A \<and> c \<noteq> CHR 0x0D) s) of
        None \<Rightarrow> Inl CorruptInput
      | Some bs \<Rightarrow> Inr bs)"

subsection \<open>crypto/aes and crypto/cipher\<close>

text \<open>
  \<^verbatim>\<open>aes.NewCipher\<close> accepts keys of 16, 24 or 32 bytes; \<^verbatim>\<open>cipher.NewGCM\<close> accepts any
  cipher whose block size is 16, which every AES cipher has.  The sealing itself
  (AES-256-GCM with a 12-byte nonce and no additional data) is a parameter of the model.
\<close>

datatype aes_block = AES bytes

definition aes_NewCipher :: "bytes \<Rightarrow> error + aes_block" where
  "aes_NewCipher key =
     (if length key = 16 \<or> length key = 24 \<or> length key = 32 then Inr (AES key)
      else Inl (KeySizeError (length key)))"

datatype gcm = GCM bytes

fun cipher_NewGCM :: "aes_block \<Rightarrow> error + gcm" where
  "cipher_NewGCM (AES key) = Inr (GCM key)"

subsection \<open>time: the UTC calendar date and its layout 2006-01-02\<close>

record civil =
  year :: nat
  month :: nat
  day :: nat

fun digits :: "nat \<Rightarrow> string" where
  "digits n =
     (if n < 10 then [char_of (48 + n)]
      else digits (n div 10) @ [char_of (48 + n mod 10)])"

definition zero_pad :: "nat \<Rightarrow> nat \<Rightarrow> string" where
  "zero_pad w n = replicate (w - length (digits n)) (CHR ''0'') @ digits n"

definition format_date :: "civil \<Rightarrow> string" where
  "format_date t = zero_pad 4 (year t) @ ''-'' @ zero_pad 2 (month t) @ ''-'' @ zero_pad 2 (day t)"

section \<open>The environment\<close>

text \<open>
  Everything a call reads from outside the program is an oracle of the \<open>world\<close>, indexed
  by how often it has been asked, and everything it does to the outside is recorded there:
  \<^item> \<open>clock\<close>: the UTC calendar date of the \<open>k\<close>-th \<^verbatim>\<open>time.Now()\<close>;
  \<^item> \<open>rng\<close>: the bytes of \<^verbatim>\<open>crypto/rand.Reader\<close> (\<open>None\<close> where reading fails);
  \<^item> \<open>net\<close>: what \<^verbatim>\<open>http.Client.Do\<close> returns for the \<open>k\<close>-th request;
  \<^item> \<open>http_calls\<close>: the requests handed to \<^verbatim>\<open>http.Client.Do\<close>, in order;
  \<^item> \<open>slept\<close>: the durations passed to \<^verbatim>\<open>time.Sleep\<close>, in order.
  Logging is not modelled.
\<close>

record request =
  req_method :: string
  req_url :: string
  req_headers :: "(string \<times> string) list"
  req_body :: bytes

datatype round_trip = TransportError string | Response int bytes

record world =
  clock :: "nat \<Rightarrow> civil"
  clock_reads :: nat
  rng :: "nat \<Rightarrow> byte option"
  rng_pos :: nat
  net :: "nat \<Rightarrow> request \<Rightarrow> round_trip"
  http_calls :: "request list"
  slept :: "int list"

definition time_Now_UTC :: "world \<Rightarrow> civil \<times> world" where
  "time_Now_UTC w = (clock w (clock_reads w), w\<lparr>clock_reads := Suc (clock_reads w)\<rparr>)"

fun those_bytes :: "byte option list \<Rightarrow> bytes option" where
  "those_bytes [] = Some []"
| "those_bytes (None # xs) = None"
| "those_bytes (Some b # xs) = map_option ((#) b) (those_bytes xs)"

definition rand_ReadFull :: "nat \<Rightarrow> world \<Rightarrow> (error + bytes) \<times> world" where
  "rand_ReadFull n w =
     (case those_bytes (map (rng w) [rng_pos w..<rng_pos w + n]) of
        None \<Rightarrow> (Inl RandReadError, w\<lparr>rng_pos := rng_pos w + n\<rparr>)
      | Some bs \<Rightarrow> (Inr bs, w\<lparr>rng_pos := rng_pos w + n\<rparr>))"

section \<open>internal/crypto: EncryptPayload\<close>

record EncryptedPayload =
  Encrypted :: bool
  KeyDate :: string
  SecretVersion :: int
  Nonce :: string
  Data :: string

text \<open>
  The payload type \<^verbatim>\<open>map[string]interface{}\<close> is the type parameter \<open>'d\<close>.  The
  functions of encoding/json, the AES-GCM sealing and the URL check of
  \<^verbatim>\<open>http.NewRequest\<close> are parameters, collected in \<open>lib\<close>.
\<close>

record 'd lib =
  json_Marshal :: "'d \<Rightarrow> error + bytes"
  json_Unmarshal :: "bytes \<Rightarrow> error + 'd"
  json_Marshal_payload :: "EncryptedPayload \<Rightarrow> error + bytes"
  gcm_Seal :: "gcm \<Rightarrow> bytes \<Rightarrow> bytes \<Rightarrow> bytes"
  http_NewRequest_ok :: "string \<Rightarrow> bool"

definition EncryptPayload ::
  "'d lib \<Rightarrow> 'd \<Rightarrow> string \<Rightarrow> string \<Rightarrow> world \<Rightarrow> (error + EncryptedPayload) \<times> world" where
  "EncryptPayload lib data masterSecretB64 appKey w =
     (case b64_DecodeString masterSecretB64 of
        Inl err \<Rightarrow> (Inl (FailedToDecodeMasterSecret err), w)
      | Inr masterSecret \<Rightarrow>
          (case time_Now_UTC w of (today, w1) \<Rightarrow>
            (case deriveKeyForDate masterSecret appKey (format_date today) of
               Inl err \<Rightarrow> (Inl (FailedToDeriveKey err), w1)
             | Inr key \<Rightarrow>
                 (case aes_NewCipher key of
                    Inl err \<Rightarrow> (Inl (FailedToCreateCipher err), w1)
                  | Inr block \<Rightarrow>
                      (case cipher_NewGCM block of
                         Inl err \<Rightarrow> (Inl (FailedToCreateGCM err), w1)
                       | Inr aead \<Rightarrow>
                           (case rand_ReadFull NonceLength w1 of
                              (Inl err, w2) \<Rightarrow> (Inl (FailedToGenerateNonce err), w2)
                            | (Inr nonce, w2) \<Rightarrow>
                                (case json_Marshal lib data of
                                   Inl err \<Rightarrow> (Inl (FailedToMarshalData err), w2)
                                 | Inr plaintext \<Rightarrow>
                                     (Inr \<lparr>Encrypted = True,
                                           KeyDate = format_date today,
                                           SecretVersion = 1,
                                           Nonce = b64_EncodeToString nonce,
                                           Data = b64_EncodeToString
                                                    (gcm_Seal lib aead nonce plaintext)\<rparr>,
                                      w2))))))))"

section \<open>internal/config\<close>

record AgentConfig =
  Port :: int
  Bind :: string

record NexusConfig =
  ServerURL :: string
  AgentToken :: string
  SyncInterval :: int
  Timeout :: int
  RetryAttempts :: int
  RetryDelay :: int

record AppConfig =
  Name :: string
  AppKey :: string
  MasterSecret :: string

record BufferConfig =
  Enabled :: bool
  MaxSize :: int
  DBPath :: string

record Config =
  Agent :: AgentConfig
  Nexus :: NexusConfig
  Apps :: "AppConfig list"
  Buffer :: BufferConfig
  syncedApps :: "string \<rightharpoonup> AppConfig"

definition GetAppByKey :: "Config \<Rightarrow> string \<Rightarrow> AppConfig option" where
  "GetAppByKey c appKey =
     (case syncedApps c appKey of
        Some app \<Rightarrow> Some app
      | None \<Rightarrow> find (\<lambda>a. AppKey a = appKey) (Apps c))"

section \<open>internal/sender\<close>

text \<open>
  The \<^verbatim>\<open>Message\<close> of a result is kept as the format with its operands; the rendering
  by \<^verbatim>\<open>fmt\<close> is not modelled.
\<close>

datatype message =
    UnknownAppKey string
  | EncryptionFailed error
  | FailedToMarshalBody error
  | AllRetriesFailed "message option"
  | FailedToCreateRequest
  | RequestFailed string
  | DataSentSuccessfully
  | ServerError int bytes
  | ClientError int bytes

record SendResult =
  Success :: bool
  Message :: message
  Retry :: bool

text \<open>
  The request that \<^verbatim>\<open>doSend\<close> builds with \<^verbatim>\<open>http.NewRequest\<close> and \<^verbatim>\<open>Header.Set\<close>.
\<close>

definition ingress_request :: "Config \<Rightarrow> string \<Rightarrow> bytes \<Rightarrow> request" where
  "ingress_request cfg appKey body =
     \<lparr>req_method = ''POST'', req_url = ServerURL (Nexus cfg) @ ''/ingress'',
      req_headers = [(''Content-Type'', ''application/json''), (''X-API-Key'', appKey)],
      req_body = body\<rparr>"

definition client_Do :: "request \<Rightarrow> world \<Rightarrow> round_trip \<times> world" where
  "client_Do req w = (net w (length (http_calls w)) req, w\<lparr>http_calls := http_calls w @ [req]\<rparr>)"

definition doSend ::
  "'d lib \<Rightarrow> Config \<Rightarrow> string \<Rightarrow> string \<Rightarrow> bytes \<Rightarrow> world \<Rightarrow> SendResult \<times> world" where
  "doSend lib cfg appKey masterSecret body w =
     (if \<not> http_NewRequest_ok lib (ServerURL (Nexus cfg) @ ''/ingress'')
      then (\<lparr>Success = False, Message = FailedToCreateRequest, Retry = False\<rparr>, w)
      else
        (case client_Do (ingress_request cfg appKey body) w of
           (TransportError err, w1) \<Rightarrow>
             (\<lparr>Success = False, Message = RequestFailed err, Retry = True\<rparr>, w1)
         | (Response StatusCode respBody, w1) \<Rightarrow>
             if StatusCode \<ge> 200 \<and> StatusCode < 300
             then (\<lparr>Success = True, Message = DataSentSuccessfully, Retry = False\<rparr>, w1)
             else if StatusCode \<ge> 500
             then (\<lparr>Success = False, Message = ServerError StatusCode respBody,
                    Retry = True\<rparr>, w1)
             else (\<lparr>Success = False, Message = ClientError StatusCode respBody,
                    Retry = False\<rparr>, w1)))"

text \<open>
  The retry loop of \<^verbatim>\<open>Send\<close>, from the value \<open>attempt\<close> of its counter on; \<open>lastErr\<close> is
  \<open>None\<close> for \<^verbatim>\<open>nil\<close>.  The counter is an unbounded integer here: in the source it
  could wrap around only after \<open>2^63\<close> attempts.
\<close>

function send_loop ::
  "'d lib \<Rightarrow> Config \<Rightarrow> string \<Rightarrow> string \<Rightarrow> bytes \<Rightarrow> int \<Rightarrow> message option \<Rightarrow> world
     \<Rightarrow> SendResult \<times> world" where
  "send_loop lib cfg appKey masterSecret bodyJSON attempt lastErr w =
     (if attempt \<le> RetryAttempts (Nexus cfg) then
        (case doSend lib cfg appKey masterSecret bodyJSON w of
           (result, w1) \<Rightarrow>
             if Success result then (result, w1)
             else if \<not> Retry result then (result, w1)
             else send_loop lib cfg appKey masterSecret bodyJSON (attempt + 1)
                    (Some (Message result))
                    (if attempt < RetryAttempts (Nexus cfg)
                     then w1\<lparr>slept := slept w1 @ [RetryDelay (Nexus cfg)]\<rparr>
                     else w1))
      else (\<lparr>Success = False, Message = AllRetriesFailed lastErr, Retry = True\<rparr>, w))"
  by pat_completeness auto
termination
  by (relation "measure (\<lambda>(lib, cfg, appKey, masterSecret, bodyJSON, attempt, lastErr, w).
                  nat (RetryAttempts (Nexus cfg) + 1 - attempt))") auto

declare send_loop.simps [simp del]

definition Send :: "'d lib \<Rightarrow> Config \<Rightarrow> string \<Rightarrow> 'd \<Rightarrow> world \<Rightarrow> SendResult \<times> world" where
  "Send lib cfg appKey data w =
     (case GetAppByKey cfg appKey of
        None \<Rightarrow> (\<lparr>Success = False, Message = UnknownAppKey appKey, Retry = False\<rparr>, w)
      | Some appConfig \<Rightarrow>
          (case EncryptPayload lib data (MasterSecret appConfig) appKey w of
             (Inl err, w1) \<Rightarrow>
               (\<lparr>Success = False, Message = EncryptionFailed err, Retry = False\<rparr>, w1)
           | (Inr encryptedPayload, w1) \<Rightarrow>
               (case json_Marshal_payload lib encryptedPayload of
                  Inl err \<Rightarrow>
                    (\<lparr>Success = False, Message = FailedToMarshalBody err, Retry = False\<rparr>, w1)
                | Inr bodyJSON \<Rightarrow>
                    send_loop lib cfg appKey (MasterSecret appConfig) bodyJSON 1 None w1)))"

section \<open>internal/queue\<close>

text \<open>
  The table \<^verbatim>\<open>messages\<close> is the list \<open>rows\<close>; \<open>seq\<close> is the entry of the table in
  \<^verbatim>\<open>sqlite_sequence\<close>, which \<^verbatim>\<open>AUTOINCREMENT\<close> maintains: a new row gets an id one
  larger than the largest id the table ever held, and the insert fails when that id would
  exceed the largest 64-bit integer.  A statement can fail for reasons outside the program:
  \<open>db_fails\<close> says whether the \<open>k\<close>-th statement does.  \<open>db_clock\<close> is
  \<^verbatim>\<open>CURRENT_TIMESTAMP\<close> at the \<open>k\<close>-th statement.  The mutex makes each operation
  atomic, so each is a function from the state before to the state after.
\<close>

record row =
  row_id :: int
  row_app_key :: string
  row_data :: bytes
  row_created_at :: int
  row_attempts :: int

record 'd Message =
  ID :: int
  msg_AppKey :: string
  msg_Data :: 'd
  CreatedAt :: int
  Attempts :: int

record Queue =
  rows :: "row list"
  seq :: int
  maxSize :: int
  db_fails :: "nat \<Rightarrow> bool"
  db_clock :: "nat \<Rightarrow> int"
  db_stmts :: nat

datatype queue_error =
    FailedToCheckQueueSize
  | QueueIsFull int
  | FailedToMarshal error
  | FailedToInsertMessage
  | FailedToDequeue
  | FailedToUnmarshal error
  | ExecFailed

definition db_exec :: "Queue \<Rightarrow> bool \<times> Queue" where
  "db_exec q = (db_fails q (db_stmts q), q\<lparr>db_stmts := Suc (db_stmts q)\<rparr>)"

definition next_id :: "Queue \<Rightarrow> int" where
  "next_id q = fold max (map row_id (rows q)) (seq q) + 1"

definition Enqueue :: "'d lib \<Rightarrow> string \<Rightarrow> 'd \<Rightarrow> Queue \<Rightarrow> (queue_error + int) \<times> Queue" where
  "Enqueue lib appKey data q =
     (case db_exec q of
        (True, q1) \<Rightarrow> (Inl FailedToCheckQueueSize, q1)
      | (False, q1) \<Rightarrow>
          if int (length (rows q1)) \<ge> maxSize q1 then (Inl (QueueIsFull (maxSize q1)), q1)
          else
            (case json_Marshal lib data of
               Inl err \<Rightarrow> (Inl (FailedToMarshal err), q1)
             | Inr dataJSON \<Rightarrow>
                 (case db_exec q1 of
                    (True, q2) \<Rightarrow> (Inl FailedToInsertMessage, q2)
                  | (False, q2) \<Rightarrow>
                      if next_id q2 > 2 ^ 63 - 1 then (Inl FailedToInsertMessage, q2)
                      else
                        (Inr (next_id q2),
                         q2\<lparr>rows := rows q2 @
                               [\<lparr>row_id = next_id q2, row_app_key = appKey,
                                 row_data = dataJSON,
                                 row_created_at = db_clock q1 (db_stmts q1),
                                 row_attempts = 0\<rparr>],
                            seq := next_id q2\<rparr>))))"

text \<open>\<^verbatim>\<open>ORDER BY id ASC LIMIT 1\<close>: the row with the least id, if there is a row.\<close>

fun first_by_id :: "row list \<Rightarrow> row option" where
  "first_by_id [] = None"
| "first_by_id (r # rs) =
     (case first_by_id rs of
        None \<Rightarrow> Some r
      | Some m \<Rightarrow> if row_id r \<le> row_id m then Some r else Some m)"

definition Dequeue :: "'d lib \<Rightarrow> Queue \<Rightarrow> (queue_error + 'd Message option) \<times> Queue" where
  "Dequeue lib q =
     (case db_exec q of
        (True, q1) \<Rightarrow> (Inl FailedToDequeue, q1)
      | (False, q1) \<Rightarrow>
          (case first_by_id (rows q1) of
             None \<Rightarrow> (Inr None, q1)
           | Some r \<Rightarrow>
               (case json_Unmarshal lib (row_data r) of
                  Inl err \<Rightarrow> (Inl (FailedToUnmarshal err), q1)
                | Inr d \<Rightarrow>
                    (Inr (Some \<lparr>ID = row_id r, msg_AppKey = row_app_key r, msg_Data = d,
                                CreatedAt = row_created_at r, Attempts = row_attempts r\<rparr>),
                     q1))))"

definition Remove :: "int \<Rightarrow> Queue \<Rightarrow> queue_error option \<times> Queue" where
  "Remove i q =
     (case db_exec q of
        (True, q1) \<Rightarrow> (Some ExecFailed, q1)
      | (False, q1) \<Rightarrow> (None, q1\<lparr>rows := filter (\<lambda>r. row_id r \<noteq> i) (rows q1)\<rparr>))"

definition IncrementAttempts :: "int \<Rightarrow> Queue \<Rightarrow> queue_error option \<times> Queue" where
  "IncrementAttempts i q =
     (case db_exec q of
        (True, q1) \<Rightarrow> (Some ExecFailed, q1)
      | (False, q1) \<Rightarrow>
          (None,
           q1\<lparr>rows := map (\<lambda>r. if row_id r = i then r\<lparr>row_attempts := row_attempts r + 1\<rparr>
                                else r) (rows q1)\<rparr>))"

definition Size :: "Queue \<Rightarrow> (queue_error + int) \<times> Queue" where
  "Size q =
     (case db_exec q of
        (True, q1) \<Rightarrow> (Inl ExecFailed, q1)
      | (False, q1) \<Rightarrow> (Inr (int (length (rows q1))), q1))"

section \<open>cmd/agent: one drain cycle of processQueue\<close>

text \<open>
  Go's \<^verbatim>\<open>int\<close> is 64 bits wide and its product wraps around.
\<close>

definition int64_mul :: "int \<Rightarrow> int \<Rightarrow> int" where
  "int64_mul a b = sint (word_of_int (a * b) :: 64 word)"

datatype 'a loop = Break 'a | Continue 'a

text \<open>
  One pass through the body of the inner \<^verbatim>\<open>for\<close> loop: \<open>Break\<close> where the source leaves
  the loop, \<open>Continue\<close> where it goes round again.  The errors of \<^verbatim>\<open>Remove\<close> and
  \<^verbatim>\<open>IncrementAttempts\<close> are dropped, as in the source.
\<close>

definition processQueue_step ::
  "'d lib \<Rightarrow> Config \<Rightarrow> world \<times> Queue \<Rightarrow> (world \<times> Queue) loop" where
  "processQueue_step lib cfg s =
     (case s of (w, q) \<Rightarrow>
        (case Dequeue lib q of
           (Inl err, q1) \<Rightarrow> Break (w, q1)
         | (Inr None, q1) \<Rightarrow> Break (w, q1)
         | (Inr (Some msg), q1) \<Rightarrow>
             (case Send lib cfg (msg_AppKey msg) (msg_Data msg) w of
                (result, w1) \<Rightarrow>
                  if Success result then Continue (w1, snd (Remove (ID msg) q1))
                  else if \<not> Retry result
                          \<or> Attempts msg \<ge> int64_mul (RetryAttempts (Nexus cfg)) 3
                  then Continue (w1, snd (Remove (ID msg) q1))
                  else Break (w1, snd (IncrementAttempts (ID msg) q1)))))"

text \<open>
  The inner loop, which one tick of the ticker runs.  It need not end (a \<^verbatim>\<open>Remove\<close> that
  keeps failing leaves the same message at the head), so not returning is \<open>None\<close>.
\<close>

partial_function (option) processQueue_cycle ::
  "'d lib \<Rightarrow> Config \<Rightarrow> world \<times> Queue \<Rightarrow> (world \<times> Queue) option" where
  "processQueue_cycle lib cfg s =
     (case processQueue_step lib cfg s of
        Break s' \<Rightarrow> Some s'
      | Continue s' \<Rightarrow> processQueue_cycle lib cfg s')"

section \<open>Concrete inputs\<close>

text \<open>
  A library instance over byte-string payloads (marshalling is the identity, sealing
  returns the plaintext unchanged, every URL parses), a configuration with two static
  apps (the second with the secret of the README's sample configuration), and a world
  whose network answers the \<open>k\<close>-th request with \<open>answers k\<close>.
\<close>

definition example_lib :: "bytes lib" where
  "example_lib =
     \<lparr>json_Marshal = Inr, json_Unmarshal = Inr,
      json_Marshal_payload = (\<lambda>p. Inr (bytes_of (KeyDate p @ Nonce p @ Data p))),
      gcm_Seal = (\<lambda>aead nonce plaintext. plaintext),
      http_NewRequest_ok = (\<lambda>url. True)\<rparr>"

definition example_cfg :: "int \<Rightarrow> Config" where
  "example_cfg attempts =
     \<lparr>Agent = \<lparr>Port = 9000, Bind = ''127.0.0.1''\<rparr>,
      Nexus = \<lparr>ServerURL = ''https://nexus.example'', AgentToken = [], SyncInterval = 60,
               Timeout = 30, RetryAttempts = attempts, RetryDelay = 5\<rparr>,
      Apps = [\<lparr>Name = ''app'', AppKey = ''k1'', MasterSecret = ''AAAA''\<rparr>,
              \<lparr>Name = ''readme'', AppKey = ''k2'', MasterSecret = ''your_master_secret''\<rparr>],
      Buffer = \<lparr>Enabled = True, MaxSize = 2, DBPath = ''./queue.db''\<rparr>,
      syncedApps = Map.empty\<rparr>"

definition example_world :: "(nat \<Rightarrow> round_trip) \<Rightarrow> world" where
  "example_world answers =
     \<lparr>clock = (\<lambda>k. \<lparr>year = 2024, month = 1, day = 1\<rparr>), clock_reads = 0,
      rng = (\<lambda>k. Some (of_nat k)), rng_pos = 0,
      net = (\<lambda>k req. answers k), http_calls = [], slept = []\<rparr>"

section \<open>Notions used to state the properties of the sender\<close>

text \<open>
  An attempt fails retryably when its result has \<open>Retry\<close> and not \<open>Success\<close>.
  \<open>attempt_result ... w i\<close> is what \<open>doSend\<close> returns when \<open>i\<close> requests of the same
  \<open>Send\<close> went out before it: the result of attempt \<open>i + 1\<close> of a retry loop entered in
  the world \<open>w\<close>.
\<close>

definition retryable_failure :: "SendResult \<Rightarrow> bool" where
  "retryable_failure r = (\<not> Success r \<and> Retry r)"

definition attempt_result ::
  "'d lib \<Rightarrow> Config \<Rightarrow> string \<Rightarrow> string \<Rightarrow> bytes \<Rightarrow> world \<Rightarrow> nat \<Rightarrow> SendResult" where
  "attempt_result lib cfg appKey masterSecret body w i =
     fst (doSend lib cfg appKey masterSecret body
            (w\<lparr>http_calls := http_calls w @ replicate i (ingress_request cfg appKey body)\<rparr>))"

definition example_payload :: "bytes \<Rightarrow> EncryptedPayload" where
  "example_payload data =
     \<lparr>Encrypted = True, KeyDate = ''2024-01-01'', SecretVersion = 1,
      Nonce = b64_EncodeToString (map of_nat [0..<12]),
      Data = b64_EncodeToString data\<rparr>"

definition example_body :: "bytes \<Rightarrow> bytes" where
  "example_body data =
     bytes_of (''2024-01-01'' @ b64_EncodeToString (map of_nat [0..<12]) @ b64_EncodeToString data)"

text \<open>
  A row and a queue for the concrete inputs: the store never fails, and the sequence entry
  is the largest id among the rows.
\<close>

definition example_row :: "int \<Rightarrow> int \<Rightarrow> row" where
  "example_row i n =
     \<lparr>row_id = i, row_app_key = ''k1'', row_data = [1, 2, 3], row_created_at = 0,
      row_attempts = n\<rparr>"

definition example_queue :: "row list \<Rightarrow> int \<Rightarrow> Queue" where
  "example_queue rs capacity =
     \<lparr>rows = rs, seq = fold max (map row_id rs) 0, maxSize = capacity,
      db_fails = (\<lambda>k. False), db_clock = (\<lambda>k. int k), db_stmts = 0\<rparr>"


section \<open>Notions used to state the properties of the queue\<close>

text \<open>
  \<open>drain_ids lib n q\<close> are the ids that \<open>n\<close> rounds of \<open>Dequeue\<close> followed by
  \<open>Remove\<close> of the returned message yield, in order; it stops at the first round in
  which \<open>Dequeue\<close> returns no message.  \<open>store_ok q\<close> says that no statement of the store
  fails, \<open>rows_parse lib q\<close> that the payload text of every row unmarshals.
\<close>

fun drain_ids :: "'d lib \<Rightarrow> nat \<Rightarrow> Queue \<Rightarrow> int list" where
  "drain_ids lib 0 q = []"
| "drain_ids lib (Suc n) q =
     (case Dequeue lib q of
        (Inr (Some msg), q1) \<Rightarrow> ID msg # drain_ids lib n (snd (Remove (ID msg) q1))
      | _ \<Rightarrow> [])"

definition store_ok :: "Queue \<Rightarrow> bool" where
  "store_ok q = (\<forall>k. \<not> db_fails q k)"

definition rows_parse :: "'d lib \<Rightarrow> Queue \<Rightarrow> bool" where
  "rows_parse lib q = (\<forall>r \<in> set (rows q). \<exists>d. json_Unmarshal lib (row_data r) = Inr d)"

section \<open>Key derivation\<close>

lemma hkdf_Read_32:
  "hkdf_Read (hkdf_Expand prk info) 32 =
     Inr (hmac_sha256 prk (info @ [1]),
          \<lparr>hk_expander = prk, hk_size = 32, hk_info = info, hk_counter = 2,
           hk_prev = hmac_sha256 prk (info @ [1]), hk_buf = []\<rparr>)"
  by (simp add: hkdf_Read_def hkdf_Expand_def hkdf_next_def Let_def length_hmac_sha256)

lemma HKDF_Expand_rfc_32:
  "HKDF_Expand_rfc prk info 32 = hmac_sha256 prk (info @ [1])"
  by (simp add: HKDF_Expand_rfc_def length_hmac_sha256)

lemma deriveKeyForDate_eq:
  "deriveKeyForDate masterSecret appKey date =
     Inr (HKDF_SHA256_no_salt masterSecret
            (bytes_of (''nexus-enigma-'' @ appKey @ ''-'' @ date)) 32)"
  by (simp add: deriveKeyForDate_def Let_def io_ReadFull_def hkdf_New_def hkdf_Read_32
      KeyLength_def HKDF_SHA256_no_salt_def HKDF_Expand_rfc_32 HKDF_Extract_rfc_def
      hkdf_Extract_def)

lemma length_HKDF_SHA256_no_salt_32: "length (HKDF_SHA256_no_salt ikm info 32) = 32"
  by (simp add: HKDF_SHA256_no_salt_def HKDF_Expand_rfc_32 length_hmac_sha256)

declare digits.simps [simp del]

lemma char_of_48: "char_of (48::nat) = CHR ''0''"
  by code_simp

lemma char_of_digit:
  "char_of (49::nat) = CHR ''1''" "char_of (50::nat) = CHR ''2''"
  "char_of (51::nat) = CHR ''3''" "char_of (52::nat) = CHR ''4''"
  "char_of (53::nat) = CHR ''5''" "char_of (54::nat) = CHR ''6''"
  "char_of (55::nat) = CHR ''7''" "char_of (56::nat) = CHR ''8''"
  "char_of (57::nat) = CHR ''9''"
  by code_simp+

lemma digits_lt_10: "n < 10 \<Longrightarrow> digits n = [char_of (48 + n)]"
  by (subst digits.simps) simp

lemma digits_ge_10: "10 \<le> n \<Longrightarrow> digits n = digits (n div 10) @ [char_of (48 + n mod 10)]"
  by (subst digits.simps) simp

lemma digits_lt_100:
  assumes "10 \<le> n" "n < 100"
  shows "digits n = [char_of (48 + n div 10), char_of (48 + n mod 10)]"
proof -
  have "n div 10 < 10" using assms by arith
  then show ?thesis using assms by (simp add: digits_ge_10 digits_lt_10)
qed

lemma digits_lt_1000:
  assumes "100 \<le> n" "n < 1000"
  shows "digits n =
     [char_of (48 + n div 100), char_of (48 + n div 10 mod 10), char_of (48 + n mod 10)]"
proof -
  have a: "10 \<le> n div 10" "n div 10 < 100" "10 \<le> n" using assms by arith+
  have b: "n div 10 div 10 = n div 100" by (simp add: div_mult2_eq[symmetric])
  show ?thesis using a b by (simp add: digits_ge_10[of n] digits_lt_100)
qed

lemma digits_lt_10000:
  assumes "1000 \<le> n" "n < 10000"
  shows "digits n =
     [char_of (48 + n div 1000), char_of (48 + n div 100 mod 10),
      char_of (48 + n div 10 mod 10), char_of (48 + n mod 10)]"
proof -
  have a: "100 \<le> n div 10" "n div 10 < 1000" "10 \<le> n" using assms by arith+
  have b: "n div 10 div 100 = n div 1000" "n div 10 div 10 = n div 100"
    by (simp_all add: div_mult2_eq[symmetric])
  show ?thesis using a b by (simp add: digits_ge_10[of n] digits_lt_1000)
qed

lemma zero_pad_2:
  assumes "n < 100"
  shows "zero_pad 2 n = [char_of (48 + n div 10), char_of (48 + n mod 10)]"
proof (cases "n < 10")
  case True
  then show ?thesis by (simp add: zero_pad_def digits_lt_10 char_of_48)
next
  case False
  with assms show ?thesis by (simp add: zero_pad_def digits_lt_100)
qed

lemma zero_pad_4:
  assumes n: "n < 10000"
  shows "zero_pad 4 n =
     [char_of (48 + n div 1000), char_of (48 + n div 100 mod 10),
      char_of (48 + n div 10 mod 10), char_of (48 + n mod 10)]"
proof -
  consider "n < 10" | "10 \<le> n" "n < 100" | "100 \<le> n" "n < 1000" | "1000 \<le> n"
    by linarith
  then show ?thesis
  proof cases
    case 1
    have "replicate 3 (CHR ''0'') = [CHR ''0'', CHR ''0'', CHR ''0'']"
      by (simp add: numeral_3_eq_3)
    with 1 show ?thesis
      by (simp add: zero_pad_def digits_lt_10 char_of_48)
  next
    case 2
    have "replicate 2 (CHR ''0'') = [CHR ''0'', CHR ''0'']"
      by (simp add: numeral_2_eq_2)
    with 2 show ?thesis
      by (simp add: zero_pad_def digits_lt_100 char_of_48)
  next
    case 3
    then show ?thesis
      by (simp add: zero_pad_def digits_lt_1000 char_of_48)
  next
    case 4
    with n show ?thesis
      by (simp add: zero_pad_def digits_lt_10000)
  qed
qed

lemma format_date_layout:
  assumes "year t < 10000" "month t < 100" "day t < 100"
  shows "format_date t =
     [char_of (48 + year t div 1000), char_of (48 + year t div 100 mod 10),
      char_of (48 + year t div 10 mod 10), char_of (48 + year t mod 10), CHR ''-'',
      char_of (48 + month t div 10), char_of (48 + month t mod 10), CHR ''-'',
      char_of (48 + day t div 10), char_of (48 + day t mod 10)]"
  using assms by (simp add: format_date_def zero_pad_2 zero_pad_4)

text \<open>
  Claim C1.  For every long-term secret, tenant key and date, \<open>deriveKeyForDate\<close> returns
  (it never fails) the 32 bytes that RFC 5869 defines as HKDF over SHA-256 with the secret
  as input keying material, no salt, and the info string \<open>nexus-enigma-\<close>, tenant key,
  \<open>-\<close>, date; for a calendar date up to the year 9999 the date string has the layout
  \<open>YYYY-MM-DD\<close>.  The function takes the three inputs and nothing else (the source reads
  no clock, no random source and no stored state), so equal inputs give equal keys.
\<close>

theorem deriveKeyForDate_is_hkdf_sha256:
  "deriveKeyForDate masterSecret appKey (format_date t) =
     Inr (HKDF_SHA256_no_salt masterSecret
            (bytes_of (''nexus-enigma-'' @ appKey @ ''-'' @ format_date t)) 32)
   \<and> length (HKDF_SHA256_no_salt masterSecret
            (bytes_of (''nexus-enigma-'' @ appKey @ ''-'' @ format_date t)) 32) = 32
   \<and> (year t < 10000 \<and> month t < 100 \<and> day t < 100 \<longrightarrow>
        format_date t =
          [char_of (48 + year t div 1000), char_of (48 + year t div 100 mod 10),
           char_of (48 + year t div 10 mod 10), char_of (48 + year t mod 10), CHR ''-'',
           char_of (48 + month t div 10), char_of (48 + month t mod 10), CHR ''-'',
           char_of (48 + day t div 10), char_of (48 + day t mod 10)])"
proof (intro conjI impI)
  show "deriveKeyForDate masterSecret appKey (format_date t) =
     Inr (HKDF_SHA256_no_salt masterSecret
            (bytes_of (''nexus-enigma-'' @ appKey @ ''-'' @ format_date t)) 32)"
    by (rule deriveKeyForDate_eq)
next
  show "length (HKDF_SHA256_no_salt masterSecret
            (bytes_of (''nexus-enigma-'' @ appKey @ ''-'' @ format_date t)) 32) = 32"
    by (rule length_HKDF_SHA256_no_salt_32)
next
  assume "year t < 10000 \<and> month t < 100 \<and> day t < 100"
  then show "format_date t =
          [char_of (48 + year t div 1000), char_of (48 + year t div 100 mod 10),
           char_of (48 + year t div 10 mod 10), char_of (48 + year t mod 10), CHR ''-'',
           char_of (48 + month t div 10), char_of (48 + month t mod 10), CHR ''-'',
           char_of (48 + day t div 10), char_of (48 + day t mod 10)]"
    by (simp add: format_date_layout)
qed

text \<open>
  The specification's concrete scenario: a secret of 32 zero bytes, the tenant key \<open>k1\<close>
  and the date 2024-01-01.
\<close>

lemma HKDF_SHA256_known_answer:
  "HKDF_SHA256_no_salt (replicate 32 0) (bytes_of ''nexus-enigma-k1-2024-01-01'') 32 =
     [23, 192, 47, 42, 130, 58, 159, 82, 66, 164, 70, 3, 94, 21, 213, 58,
      179, 223, 30, 14, 205, 51, 116, 131, 17, 202, 243, 204, 213, 227, 123, 20]"
  by code_simp

theorem deriveKeyForDate_is_hkdf_sha256_witness:
  "deriveKeyForDate (replicate 32 0) ''k1'' (format_date \<lparr>year = 2024, month = 1, day = 1\<rparr>) =
     Inr [23, 192, 47, 42, 130, 58, 159, 82, 66, 164, 70, 3, 94, 21, 213, 58,
          179, 223, 30, 14, 205, 51, 116, 131, 17, 202, 243, 204, 213, 227, 123, 20]
   \<and> format_date \<lparr>year = 2024, month = 1, day = 1\<rparr> = ''2024-01-01''"
proof -
  have layout: "format_date \<lparr>year = 2024, month = 1, day = 1\<rparr> = ''2024-01-01''"
    by code_simp
  have info: "''nexus-enigma-'' @ ''k1'' @ ''-'' @ ''2024-01-01'' = ''nexus-enigma-k1-2024-01-01''"
    by simp
  note C1 = deriveKeyForDate_is_hkdf_sha256
              [of "replicate 32 0" "''k1''" "\<lparr>year = 2024, month = 1, day = 1\<rparr>",
               unfolded layout info HKDF_SHA256_known_answer]
  from C1 have key: "deriveKeyForDate (replicate 32 0) ''k1'' ''2024-01-01'' =
     Inr [23, 192, 47, 42, 130, 58, 159, 82, 66, 164, 70, 3, 94, 21, 213, 58,
          179, 223, 30, 14, 205, 51, 116, 131, 17, 202, 243, 204, 213, 227, 123, 20]"
    by (rule conjunct1)
  show ?thesis
    unfolding layout using key by (intro conjI refl)
qed

lemma doSend_no_request:
  "\<not> http_NewRequest_ok lib (ServerURL (Nexus cfg) @ ''/ingress'') \<Longrightarrow>
   doSend lib cfg appKey masterSecret body w =
     (\<lparr>Success = False, Message = FailedToCreateRequest, Retry = False\<rparr>, w)"
  by (simp add: doSend_def)

lemma doSend_TransportError:
  "http_NewRequest_ok lib (ServerURL (Nexus cfg) @ ''/ingress'') \<Longrightarrow>
   net w (length (http_calls w)) (ingress_request cfg appKey body) = TransportError err \<Longrightarrow>
   doSend lib cfg appKey masterSecret body w =
     (\<lparr>Success = False, Message = RequestFailed err, Retry = True\<rparr>,
      w\<lparr>http_calls := http_calls w @ [ingress_request cfg appKey body]\<rparr>)"
  by (simp add: doSend_def client_Do_def)

lemma doSend_Response:
  "http_NewRequest_ok lib (ServerURL (Nexus cfg) @ ''/ingress'') \<Longrightarrow>
   net w (length (http_calls w)) (ingress_request cfg appKey body) = Response status respBody \<Longrightarrow>
   doSend lib cfg appKey masterSecret body w =
     (if 200 \<le> status \<and> status < 300
      then \<lparr>Success = True, Message = DataSentSuccessfully, Retry = False\<rparr>
      else if 500 \<le> status
      then \<lparr>Success = False, Message = ServerError status respBody, Retry = True\<rparr>
      else \<lparr>Success = False, Message = ClientError status respBody, Retry = False\<rparr>,
      w\<lparr>http_calls := http_calls w @ [ingress_request cfg appKey body]\<rparr>)"
  by (simp add: doSend_def client_Do_def)

lemma doSend_http_calls:
  "http_calls (snd (doSend lib cfg appKey masterSecret body w)) =
     (if http_NewRequest_ok lib (ServerURL (Nexus cfg) @ ''/ingress'')
      then http_calls w @ [ingress_request cfg appKey body] else http_calls w)"
proof (cases "http_NewRequest_ok lib (ServerURL (Nexus cfg) @ ''/ingress'')")
  case False
  then show ?thesis by (simp add: doSend_no_request)
next
  case ok: True
  show ?thesis
  proof (cases "net w (length (http_calls w)) (ingress_request cfg appKey body)")
    case (TransportError err)
    with ok show ?thesis by (simp add: doSend_TransportError)
  next
    case (Response status respBody)
    with ok show ?thesis by (simp add: doSend_Response)
  qed
qed

text \<open>
  Claim C2.  One delivery attempt (one \<open>doSend\<close> whose request could be built) hands
  exactly one request to the HTTP client and classifies what comes back: a response with a
  status in \<open>[200, 300)\<close> is a success; a transport failure (no response) is a failure
  with \<open>Retry\<close>; a response with a status of at least 500 is a failure with \<open>Retry\<close>;
  any other response is a failure without \<open>Retry\<close>.
\<close>

theorem doSend_classification:
  assumes ok: "http_NewRequest_ok lib (ServerURL (Nexus cfg) @ ''/ingress'')"
  shows
    "(\<forall>status respBody.
        net w (length (http_calls w)) (ingress_request cfg appKey body) = Response status respBody
        \<and> 200 \<le> status \<and> status < 300 \<longrightarrow>
        Success (fst (doSend lib cfg appKey masterSecret body w)))
     \<and> (\<forall>err.
        net w (length (http_calls w)) (ingress_request cfg appKey body) = TransportError err \<longrightarrow>
        \<not> Success (fst (doSend lib cfg appKey masterSecret body w))
        \<and> Retry (fst (doSend lib cfg appKey masterSecret body w)))
     \<and> (\<forall>status respBody.
        net w (length (http_calls w)) (ingress_request cfg appKey body) = Response status respBody
        \<and> 500 \<le> status \<longrightarrow>
        \<not> Success (fst (doSend lib cfg appKey masterSecret body w))
        \<and> Retry (fst (doSend lib cfg appKey masterSecret body w)))
     \<and> (\<forall>status respBody.
        net w (length (http_calls w)) (ingress_request cfg appKey body) = Response status respBody
        \<and> \<not> (200 \<le> status \<and> status < 300) \<and> status < 500 \<longrightarrow>
        \<not> Success (fst (doSend lib cfg appKey masterSecret body w))
        \<and> \<not> Retry (fst (doSend lib cfg appKey masterSecret body w)))
     \<and> http_calls (snd (doSend lib cfg appKey masterSecret body w)) =
         http_calls w @ [ingress_request cfg appKey body]"
proof (intro conjI allI impI)
  fix status respBody
  assume "net w (length (http_calls w)) (ingress_request cfg appKey body) = Response status respBody
          \<and> 200 \<le> status \<and> status < 300"
  then show "Success (fst (doSend lib cfg appKey masterSecret body w))"
    using ok by (simp add: doSend_Response)
next
  fix err
  assume "net w (length (http_calls w)) (ingress_request cfg appKey body) = TransportError err"
  then show "\<not> Success (fst (doSend lib cfg appKey masterSecret body w))"
    and "Retry (fst (doSend lib cfg appKey masterSecret body w))"
    using ok by (simp_all add: doSend_TransportError)
next
  fix status respBody
  assume "net w (length (http_calls w)) (ingress_request cfg appKey body) = Response status respBody
          \<and> 500 \<le> status"
  then show "\<not> Success (fst (doSend lib cfg appKey masterSecret body w))"
    and "Retry (fst (doSend lib cfg appKey masterSecret body w))"
    using ok by (simp_all add: doSend_Response)
next
  fix status respBody
  assume "net w (length (http_calls w)) (ingress_request cfg appKey body) = Response status respBody
          \<and> \<not> (200 \<le> status \<and> status < 300) \<and> status < 500"
  then show "\<not> Success (fst (doSend lib cfg appKey masterSecret body w))"
    and "\<not> Retry (fst (doSend lib cfg appKey masterSecret body w))"
    using ok by (auto simp add: doSend_Response)
next
  show "http_calls (snd (doSend lib cfg appKey masterSecret body w)) =
         http_calls w @ [ingress_request cfg appKey body]"
    using ok by (simp add: doSend_http_calls)
qed

theorem doSend_classification_witness:
  "Success (fst (doSend example_lib (example_cfg 3) ''k1'' ''AAAA'' []
                   (example_world (\<lambda>k. Response 204 []))))
   \<and> \<not> Success (fst (doSend example_lib (example_cfg 3) ''k1'' ''AAAA'' []
                   (example_world (\<lambda>k. TransportError ''connection refused''))))
   \<and> Retry (fst (doSend example_lib (example_cfg 3) ''k1'' ''AAAA'' []
                   (example_world (\<lambda>k. TransportError ''connection refused''))))
   \<and> \<not> Success (fst (doSend example_lib (example_cfg 3) ''k1'' ''AAAA'' []
                   (example_world (\<lambda>k. Response 500 []))))
   \<and> Retry (fst (doSend example_lib (example_cfg 3) ''k1'' ''AAAA'' []
                   (example_world (\<lambda>k. Response 500 []))))
   \<and> \<not> Success (fst (doSend example_lib (example_cfg 3) ''k1'' ''AAAA'' []
                   (example_world (\<lambda>k. Response 400 []))))
   \<and> \<not> Retry (fst (doSend example_lib (example_cfg 3) ''k1'' ''AAAA'' []
                   (example_world (\<lambda>k. Response 400 []))))"
proof -
  have ok: "http_NewRequest_ok example_lib (ServerURL (Nexus (example_cfg 3)) @ ''/ingress'')"
    by (simp add: example_lib_def)
  note C2 = doSend_classification [OF ok, of _ "''k1''" "[]" "''AAAA''"]
  have a: "Success (fst (doSend example_lib (example_cfg 3) ''k1'' ''AAAA'' []
                   (example_world (\<lambda>k. Response 204 []))))"
    using C2 [of "example_world (\<lambda>k. Response 204 [])"] by (simp add: example_world_def)
  have b: "\<not> Success (fst (doSend example_lib (example_cfg 3) ''k1'' ''AAAA'' []
                   (example_world (\<lambda>k. TransportError ''connection refused''))))
      \<and> Retry (fst (doSend example_lib (example_cfg 3) ''k1'' ''AAAA'' []
                   (example_world (\<lambda>k. TransportError ''connection refused''))))"
    using C2 [of "example_world (\<lambda>k. TransportError ''connection refused'')"]
    by (simp add: example_world_def)
  have c: "\<not> Success (fst (doSend example_lib (example_cfg 3) ''k1'' ''AAAA'' []
                   (example_world (\<lambda>k. Response 500 []))))
      \<and> Retry (fst (doSend example_lib (example_cfg 3) ''k1'' ''AAAA'' []
                   (example_world (\<lambda>k. Response 500 []))))"
    using C2 [of "example_world (\<lambda>k. Response 500 [])"] by (simp add: example_world_def)
  have d: "\<not> Success (fst (doSend example_lib (example_cfg 3) ''k1'' ''AAAA'' []
                   (example_world (\<lambda>k. Response 400 []))))
      \<and> \<not> Retry (fst (doSend example_lib (example_cfg 3) ''k1'' ''AAAA'' []
                   (example_world (\<lambda>k. Response 400 []))))"
    using C2 [of "example_world (\<lambda>k. Response 400 [])"] by (simp add: example_world_def)
  from a b c d show ?thesis by simp
qed

lemma doSend_fst_cong:
  assumes "net w = net v" "length (http_calls w) = length (http_calls v)"
  shows "fst (doSend lib cfg appKey masterSecret body w) =
         fst (doSend lib cfg appKey masterSecret body v)"
  using assms by (simp add: doSend_def client_Do_def split: round_trip.splits)

lemma doSend_snd:
  "snd (doSend lib cfg appKey masterSecret body w) =
     (if http_NewRequest_ok lib (ServerURL (Nexus cfg) @ ''/ingress'')
      then w\<lparr>http_calls := http_calls w @ [ingress_request cfg appKey body]\<rparr> else w)"
  by (simp add: doSend_def client_Do_def split: round_trip.splits)

lemma retryable_failure_ok:
  "retryable_failure (fst (doSend lib cfg appKey masterSecret body w)) \<Longrightarrow>
   http_NewRequest_ok lib (ServerURL (Nexus cfg) @ ''/ingress'')"
  by (rule ccontr) (simp add: doSend_no_request retryable_failure_def)

lemma attempt_result_0:
  "attempt_result lib cfg appKey masterSecret body w 0 =
     fst (doSend lib cfg appKey masterSecret body w)"
  by (simp add: attempt_result_def)

lemma attempt_result_Suc:
  assumes "net w' = net w"
    and "length (http_calls w') = Suc (length (http_calls w))"
  shows "attempt_result lib cfg appKey masterSecret body w' i =
         attempt_result lib cfg appKey masterSecret body w (Suc i)"
  unfolding attempt_result_def using assms
  by (intro doSend_fst_cong) simp_all

lemma send_loop_done:
  "\<not> attempt \<le> RetryAttempts (Nexus cfg) \<Longrightarrow>
   send_loop lib cfg appKey masterSecret body attempt lastErr w =
     (\<lparr>Success = False, Message = AllRetriesFailed lastErr, Retry = True\<rparr>, w)"
  by (subst send_loop.simps) simp

lemma send_loop_stop:
  "attempt \<le> RetryAttempts (Nexus cfg) \<Longrightarrow>
   \<not> retryable_failure (fst (doSend lib cfg appKey masterSecret body w)) \<Longrightarrow>
   send_loop lib cfg appKey masterSecret body attempt lastErr w =
     doSend lib cfg appKey masterSecret body w"
  by (subst send_loop.simps) (auto simp: retryable_failure_def split: prod.splits)

lemma send_loop_again:
  "attempt \<le> RetryAttempts (Nexus cfg) \<Longrightarrow>
   retryable_failure (fst (doSend lib cfg appKey masterSecret body w)) \<Longrightarrow>
   send_loop lib cfg appKey masterSecret body attempt lastErr w =
     send_loop lib cfg appKey masterSecret body (attempt + 1)
       (Some (Message (fst (doSend lib cfg appKey masterSecret body w))))
       (if attempt < RetryAttempts (Nexus cfg)
        then (snd (doSend lib cfg appKey masterSecret body w))
               \<lparr>slept := slept (snd (doSend lib cfg appKey masterSecret body w))
                           @ [RetryDelay (Nexus cfg)]\<rparr>
        else snd (doSend lib cfg appKey masterSecret body w))"
  by (subst send_loop.simps) (auto simp: retryable_failure_def split: prod.splits)

lemma send_loop_exhausted:
  "(\<forall>i<n. retryable_failure (attempt_result lib cfg appKey masterSecret body w i)) \<Longrightarrow>
   nat (RetryAttempts (Nexus cfg) + 1 - attempt) = n \<Longrightarrow>
   \<not> Success (fst (send_loop lib cfg appKey masterSecret body attempt lastErr w))
   \<and> Retry (fst (send_loop lib cfg appKey masterSecret body attempt lastErr w))
   \<and> http_calls (snd (send_loop lib cfg appKey masterSecret body attempt lastErr w)) =
       http_calls w @ replicate n (ingress_request cfg appKey body)"
proof (induction n arbitrary: attempt lastErr w)
  case 0
  then have "\<not> attempt \<le> RetryAttempts (Nexus cfg)" by simp
  then show ?case by (simp add: send_loop_done)
next
  case (Suc n)
  let ?d = "doSend lib cfg appKey masterSecret body w"
  let ?w2 = "if attempt < RetryAttempts (Nexus cfg)
             then (snd ?d)\<lparr>slept := slept (snd ?d) @ [RetryDelay (Nexus cfg)]\<rparr> else snd ?d"
  from Suc.prems have le: "attempt \<le> RetryAttempts (Nexus cfg)" by simp
  from Suc.prems have r0: "retryable_failure (fst ?d)"
    by (auto simp: attempt_result_0 [symmetric])
  then have ok: "http_NewRequest_ok lib (ServerURL (Nexus cfg) @ ''/ingress'')"
    by (rule retryable_failure_ok)
  have net2: "net ?w2 = net w"
    and calls2: "http_calls ?w2 = http_calls w @ [ingress_request cfg appKey body]"
    using ok by (simp_all add: doSend_snd)
  have step: "send_loop lib cfg appKey masterSecret body attempt lastErr w =
              send_loop lib cfg appKey masterSecret body (attempt + 1)
                (Some (Message (fst ?d))) ?w2"
    using le r0 by (rule send_loop_again)
  have all: "\<forall>i<n. retryable_failure (attempt_result lib cfg appKey masterSecret body ?w2 i)"
  proof (intro allI impI)
    fix i assume "i < n"
    then have "retryable_failure (attempt_result lib cfg appKey masterSecret body w (Suc i))"
      using Suc.prems by simp
    moreover have "attempt_result lib cfg appKey masterSecret body ?w2 i =
                   attempt_result lib cfg appKey masterSecret body w (Suc i)"
      by (rule attempt_result_Suc) (simp_all only: net2 calls2, simp)
    ultimately show "retryable_failure (attempt_result lib cfg appKey masterSecret body ?w2 i)"
      by simp
  qed
  have n: "nat (RetryAttempts (Nexus cfg) + 1 - (attempt + 1)) = n"
    using Suc.prems by simp
  have "http_calls ?w2 @ replicate n (ingress_request cfg appKey body) =
        http_calls w @ replicate (Suc n) (ingress_request cfg appKey body)"
    by (simp only: calls2) simp
  with Suc.IH [OF all n, of "Some (Message (fst ?d))"] show ?case
    unfolding step by simp
qed

lemma send_loop_first_stop:
  "i < n \<Longrightarrow>
   nat (RetryAttempts (Nexus cfg) + 1 - attempt) = n \<Longrightarrow>
   (\<forall>j<i. retryable_failure (attempt_result lib cfg appKey masterSecret body w j)) \<Longrightarrow>
   \<not> retryable_failure (attempt_result lib cfg appKey masterSecret body w i) \<Longrightarrow>
   fst (send_loop lib cfg appKey masterSecret body attempt lastErr w) =
     attempt_result lib cfg appKey masterSecret body w i
   \<and> http_calls (snd (send_loop lib cfg appKey masterSecret body attempt lastErr w)) =
       http_calls w @
         replicate (if http_NewRequest_ok lib (ServerURL (Nexus cfg) @ ''/ingress'')
                    then Suc i else 0) (ingress_request cfg appKey body)"
proof (induction i arbitrary: n attempt lastErr w)
  case 0
  then have le: "attempt \<le> RetryAttempts (Nexus cfg)" by simp
  from "0.prems" have "\<not> retryable_failure (fst (doSend lib cfg appKey masterSecret body w))"
    by (simp add: attempt_result_0)
  with le have "send_loop lib cfg appKey masterSecret body attempt lastErr w =
                doSend lib cfg appKey masterSecret body w"
    by (rule send_loop_stop)
  then show ?case by (simp add: attempt_result_0 doSend_snd)
next
  case (Suc i)
  let ?d = "doSend lib cfg appKey masterSecret body w"
  let ?w2 = "if attempt < RetryAttempts (Nexus cfg)
             then (snd ?d)\<lparr>slept := slept (snd ?d) @ [RetryDelay (Nexus cfg)]\<rparr> else snd ?d"
  from Suc.prems have le: "attempt \<le> RetryAttempts (Nexus cfg)" by simp
  from Suc.prems have r0: "retryable_failure (fst ?d)"
    by (auto simp: attempt_result_0 [symmetric])
  then have ok: "http_NewRequest_ok lib (ServerURL (Nexus cfg) @ ''/ingress'')"
    by (rule retryable_failure_ok)
  have net2: "net ?w2 = net w"
    and calls2: "http_calls ?w2 = http_calls w @ [ingress_request cfg appKey body]"
    using ok by (simp_all add: doSend_snd)
  have shift: "attempt_result lib cfg appKey masterSecret body ?w2 j =
               attempt_result lib cfg appKey masterSecret body w (Suc j)" for j
    by (rule attempt_result_Suc) (simp_all only: net2 calls2, simp)
  have step: "send_loop lib cfg appKey masterSecret body attempt lastErr w =
              send_loop lib cfg appKey masterSecret body (attempt + 1)
                (Some (Message (fst ?d))) ?w2"
    using le r0 by (rule send_loop_again)
  obtain m where m: "n = Suc m" using Suc.prems(1) by (cases n) simp_all
  have lt: "i < m" using Suc.prems(1) m by simp
  have n: "nat (RetryAttempts (Nexus cfg) + 1 - (attempt + 1)) = m"
    using Suc.prems(2) m by simp
  have all: "\<forall>j<i. retryable_failure (attempt_result lib cfg appKey masterSecret body ?w2 j)"
    using Suc.prems(3) by (simp only: shift) simp
  have last: "\<not> retryable_failure (attempt_result lib cfg appKey masterSecret body ?w2 i)"
    using Suc.prems(4) by (simp only: shift) simp
  have "http_calls ?w2 @ replicate (Suc i) (ingress_request cfg appKey body) =
        http_calls w @ replicate (Suc (Suc i)) (ingress_request cfg appKey body)"
    by (simp only: calls2) simp
  with Suc.IH [OF lt n all last, of "Some (Message (fst ?d))"] ok show ?case
    unfolding step by (simp only: shift) simp
qed

section \<open>The sender\<close>

lemma those_bytes_length: "those_bytes xs = Some bs \<Longrightarrow> length bs = length xs"
proof (induction xs arbitrary: bs)
  case Nil
  then show ?case by simp
next
  case (Cons x xs)
  then show ?case by (cases x) auto
qed

lemma time_Now_UTC_eq:
  "time_Now_UTC w = (clock w (clock_reads w), w\<lparr>clock_reads := Suc (clock_reads w)\<rparr>)"
  by (simp add: time_Now_UTC_def)

lemma EncryptPayload_decode_error:
  "b64_DecodeString masterSecretB64 = Inl err \<Longrightarrow>
   EncryptPayload lib data masterSecretB64 appKey w = (Inl (FailedToDecodeMasterSecret err), w)"
  by (simp add: EncryptPayload_def)

lemma EncryptPayload_decoded:
  assumes "b64_DecodeString masterSecretB64 = Inr masterSecret"
  shows "EncryptPayload lib data masterSecretB64 appKey w =
     (case rand_ReadFull NonceLength (w\<lparr>clock_reads := Suc (clock_reads w)\<rparr>) of
        (Inl err, w2) \<Rightarrow> (Inl (FailedToGenerateNonce err), w2)
      | (Inr nonce, w2) \<Rightarrow>
          (case json_Marshal lib data of
             Inl err \<Rightarrow> (Inl (FailedToMarshalData err), w2)
           | Inr plaintext \<Rightarrow>
               (Inr \<lparr>Encrypted = True,
                     KeyDate = format_date (clock w (clock_reads w)),
                     SecretVersion = 1,
                     Nonce = b64_EncodeToString nonce,
                     Data = b64_EncodeToString
                       (gcm_Seal lib
                          (GCM (HKDF_SHA256_no_salt masterSecret
                                  (bytes_of (''nexus-enigma-'' @ appKey @ ''-'' @
                                             format_date (clock w (clock_reads w)))) 32))
                          nonce plaintext)\<rparr>,
                w2)))"
  using assms
  by (simp add: EncryptPayload_def time_Now_UTC_eq deriveKeyForDate_eq aes_NewCipher_def
      length_HKDF_SHA256_no_salt_32 split: prod.splits sum.splits)

lemma EncryptPayload_world:
  "http_calls (snd (EncryptPayload lib data masterSecretB64 appKey w)) = http_calls w
   \<and> net (snd (EncryptPayload lib data masterSecretB64 appKey w)) = net w
   \<and> slept (snd (EncryptPayload lib data masterSecretB64 appKey w)) = slept w"
proof (cases "b64_DecodeString masterSecretB64")
  case (Inl err)
  then show ?thesis by (simp add: EncryptPayload_decode_error)
next
  case (Inr masterSecret)
  then show ?thesis
    by (simp add: EncryptPayload_decoded rand_ReadFull_def split: option.splits sum.splits)
qed

lemma Send_unknown_app:
  "GetAppByKey cfg appKey = None \<Longrightarrow>
   Send lib cfg appKey data w =
     (\<lparr>Success = False, Message = UnknownAppKey appKey, Retry = False\<rparr>, w)"
  by (simp add: Send_def)

lemma Send_encryption_failed:
  "GetAppByKey cfg appKey = Some app \<Longrightarrow>
   EncryptPayload lib data (MasterSecret app) appKey w = (Inl err, w1) \<Longrightarrow>
   Send lib cfg appKey data w =
     (\<lparr>Success = False, Message = EncryptionFailed err, Retry = False\<rparr>, w1)"
  by (simp add: Send_def)

lemma Send_marshal_failed:
  "GetAppByKey cfg appKey = Some app \<Longrightarrow>
   EncryptPayload lib data (MasterSecret app) appKey w = (Inr payload, w1) \<Longrightarrow>
   json_Marshal_payload lib payload = Inl err \<Longrightarrow>
   Send lib cfg appKey data w =
     (\<lparr>Success = False, Message = FailedToMarshalBody err, Retry = False\<rparr>, w1)"
  by (simp add: Send_def)

lemma Send_loop:
  "GetAppByKey cfg appKey = Some app \<Longrightarrow>
   EncryptPayload lib data (MasterSecret app) appKey w = (Inr payload, w1) \<Longrightarrow>
   json_Marshal_payload lib payload = Inr body \<Longrightarrow>
   Send lib cfg appKey data w =
     send_loop lib cfg appKey (MasterSecret app) body 1 None w1"
  by (simp add: Send_def)

lemma attempt_result_cong:
  assumes "net w' = net w" "http_calls w' = http_calls w"
  shows "attempt_result lib cfg appKey masterSecret body w' i =
         attempt_result lib cfg appKey masterSecret body w i"
  unfolding attempt_result_def using assms by (intro doSend_fst_cong) simp_all

lemma first_stop_exists:
  fixes P :: "nat \<Rightarrow> bool"
  assumes "\<not> (\<forall>i<n. P i)"
  obtains i where "i < n" "\<forall>j<i. P j" "\<not> P i"
proof -
  from assms have "\<exists>i. i < n \<and> \<not> P i" by blast
  then obtain i where i: "i < n \<and> \<not> P i" and least: "\<forall>m<i. \<not> (m < n \<and> \<not> P m)"
    using exists_least_iff [of "\<lambda>i. i < n \<and> \<not> P i"] by blast
  from i least have "\<forall>j<i. P j" by auto
  with i that show thesis by blast
qed

text \<open>
  Claim C3.  A \<open>Send\<close> whose tenant key is known and whose encryption and envelope
  serialization succeed hands at most \<open>RetryAttempts\<close> requests to the HTTP client.  It
  stops at the first attempt that does not fail retryably (a success or a non-retryable
  failure) and returns that attempt's result; if all \<open>RetryAttempts\<close> attempts fail
  retryably it returns a failure with \<open>Retry\<close> after exactly that many requests.
\<close>

theorem Send_attempt_ceiling:
  assumes app: "GetAppByKey cfg appKey = Some app"
    and enc: "EncryptPayload lib data (MasterSecret app) appKey w = (Inr payload, w1)"
    and body: "json_Marshal_payload lib payload = Inr body"
  shows
    "length (http_calls (snd (Send lib cfg appKey data w)))
       \<le> length (http_calls w) + nat (RetryAttempts (Nexus cfg))
     \<and> (\<forall>i < nat (RetryAttempts (Nexus cfg)).
          (\<forall>j<i. retryable_failure (attempt_result lib cfg appKey (MasterSecret app) body w j))
          \<and> \<not> retryable_failure (attempt_result lib cfg appKey (MasterSecret app) body w i)
          \<longrightarrow>
          fst (Send lib cfg appKey data w) =
            attempt_result lib cfg appKey (MasterSecret app) body w i
          \<and> length (http_calls (snd (Send lib cfg appKey data w)))
               \<le> length (http_calls w) + Suc i)
     \<and> ((\<forall>i < nat (RetryAttempts (Nexus cfg)).
            retryable_failure (attempt_result lib cfg appKey (MasterSecret app) body w i))
          \<longrightarrow>
          \<not> Success (fst (Send lib cfg appKey data w))
          \<and> Retry (fst (Send lib cfg appKey data w))
          \<and> length (http_calls (snd (Send lib cfg appKey data w)))
               = length (http_calls w) + nat (RetryAttempts (Nexus cfg)))"
proof -
  let ?N = "nat (RetryAttempts (Nexus cfg))"
  let ?S = "Send lib cfg appKey data w"
  let ?A = "attempt_result lib cfg appKey (MasterSecret app) body w"
  have S: "?S = send_loop lib cfg appKey (MasterSecret app) body 1 None w1"
    using app enc body by (rule Send_loop)
  have w1: "net w1 = net w" "http_calls w1 = http_calls w"
    using EncryptPayload_world [of lib data "MasterSecret app" appKey w] enc by simp_all
  have A: "attempt_result lib cfg appKey (MasterSecret app) body w1 i = ?A i" for i
    using w1 by (rule attempt_result_cong)
  have N: "nat (RetryAttempts (Nexus cfg) + 1 - 1) = ?N" by simp
  have stop: "fst ?S = ?A i \<and> length (http_calls (snd ?S)) \<le> length (http_calls w) + Suc i"
    if "i < ?N" "\<forall>j<i. retryable_failure (?A j)" "\<not> retryable_failure (?A i)" for i
  proof -
    from that have "\<forall>j<i. retryable_failure
        (attempt_result lib cfg appKey (MasterSecret app) body w1 j)"
      and "\<not> retryable_failure (attempt_result lib cfg appKey (MasterSecret app) body w1 i)"
      by (simp_all only: A) simp_all
    from send_loop_first_stop [OF that(1) N this, of None] show ?thesis
      unfolding S by (simp only: A w1) simp
  qed
  have exhausted: "\<not> Success (fst ?S) \<and> Retry (fst ?S)
      \<and> length (http_calls (snd ?S)) = length (http_calls w) + ?N"
    if "\<forall>i<?N. retryable_failure (?A i)"
  proof -
    from that have "\<forall>i<?N. retryable_failure
        (attempt_result lib cfg appKey (MasterSecret app) body w1 i)"
      by (simp only: A)
    from send_loop_exhausted [OF this N, of None] show ?thesis
      unfolding S by (simp only: w1) simp
  qed
  have bound: "length (http_calls (snd ?S)) \<le> length (http_calls w) + ?N"
  proof (cases "\<forall>i<?N. retryable_failure (?A i)")
    case True
    then show ?thesis using exhausted by simp
  next
    case False
    then obtain i where "i < ?N" "\<forall>j<i. retryable_failure (?A j)" "\<not> retryable_failure (?A i)"
      by (rule first_stop_exists)
    then show ?thesis using stop [of i] by simp
  qed
  show ?thesis using bound stop exhausted by blast
qed

subsection \<open>Facts about the concrete inputs\<close>

lemma those_bytes_Some: "those_bytes (map (\<lambda>k. Some (f k)) xs) = Some (map f xs)"
  by (induction xs) simp_all

lemma example_app:
  "GetAppByKey (example_cfg n) ''k1'' = Some \<lparr>Name = ''app'', AppKey = ''k1'', MasterSecret = ''AAAA''\<rparr>"
  by (simp add: GetAppByKey_def example_cfg_def)

lemma example_secret: "b64_DecodeString ''AAAA'' = Inr [0, 0, 0]"
  by code_simp

lemma example_date: "format_date \<lparr>year = 2024, month = 1, day = 1\<rparr> = ''2024-01-01''"
  by code_simp

lemma example_encrypt:
  "EncryptPayload example_lib data
     (MasterSecret \<lparr>Name = ''app'', AppKey = ''k1'', MasterSecret = ''AAAA''\<rparr>) ''k1''
     (example_world answers) =
     (Inr (example_payload data), (example_world answers)\<lparr>clock_reads := 1, rng_pos := 12\<rparr>)"
  by (simp add: EncryptPayload_decoded [OF example_secret] rand_ReadFull_def NonceLength_def
      example_world_def example_lib_def example_payload_def example_date those_bytes_Some
      del: One_nat_def)

lemma example_marshal: "json_Marshal_payload example_lib (example_payload data) = Inr (example_body data)"
  by (simp add: example_lib_def example_payload_def example_body_def)

lemma example_attempt:
  "attempt_result example_lib cfg appKey masterSecret body (example_world answers) i =
     (case answers i of
        TransportError err \<Rightarrow> \<lparr>Success = False, Message = RequestFailed err, Retry = True\<rparr>
      | Response status respBody \<Rightarrow>
          if 200 \<le> status \<and> status < 300
          then \<lparr>Success = True, Message = DataSentSuccessfully, Retry = False\<rparr>
          else if 500 \<le> status
          then \<lparr>Success = False, Message = ServerError status respBody, Retry = True\<rparr>
          else \<lparr>Success = False, Message = ClientError status respBody, Retry = False\<rparr>)"
  by (simp add: attempt_result_def doSend_def client_Do_def example_lib_def example_world_def
      split: round_trip.splits)

lemma example_Send_loop:
  "Send example_lib (example_cfg n) ''k1'' data (example_world answers) =
     send_loop example_lib (example_cfg n) ''k1''
       (MasterSecret \<lparr>Name = ''app'', AppKey = ''k1'', MasterSecret = ''AAAA''\<rparr>)
       (example_body data) 1 None
       ((example_world answers)\<lparr>clock_reads := 1, rng_pos := 12\<rparr>)"
  using example_app example_encrypt example_marshal by (rule Send_loop)

lemma example_attempt_after_encrypt:
  "attempt_result example_lib cfg appKey masterSecret body
     ((example_world answers)\<lparr>clock_reads := 1, rng_pos := 12\<rparr>) i =
   attempt_result example_lib cfg appKey masterSecret body (example_world answers) i"
  by (rule attempt_result_cong) simp_all

lemma example_Send_refused:
  "\<not> Success (fst (Send example_lib (example_cfg 3) ''k1'' data
                     (example_world (\<lambda>k. TransportError ''connection refused''))))
   \<and> Retry (fst (Send example_lib (example_cfg 3) ''k1'' data
                     (example_world (\<lambda>k. TransportError ''connection refused''))))
   \<and> length (http_calls (snd (Send example_lib (example_cfg 3) ''k1'' data
                     (example_world (\<lambda>k. TransportError ''connection refused''))))) = 3"
proof -
  have n: "nat (RetryAttempts (Nexus (example_cfg 3)) + 1 - 1) = 3"
    by (simp add: example_cfg_def)
  have "\<forall>i<3. retryable_failure
          (attempt_result example_lib (example_cfg 3) ''k1''
             (MasterSecret \<lparr>Name = ''app'', AppKey = ''k1'', MasterSecret = ''AAAA''\<rparr>)
             (example_body data)
             ((example_world (\<lambda>k. TransportError ''connection refused''))
                \<lparr>clock_reads := 1, rng_pos := 12\<rparr>) i)"
    by (simp only: example_attempt_after_encrypt)
       (simp add: example_attempt retryable_failure_def)
  from send_loop_exhausted [OF this n, of None] show ?thesis
    unfolding example_Send_loop by (simp add: example_world_def)
qed


theorem Send_attempt_ceiling_witness:
  "\<not> Success (fst (Send example_lib (example_cfg 3) ''k1'' [1, 2, 3]
                     (example_world (\<lambda>k. TransportError ''connection refused''))))
   \<and> Retry (fst (Send example_lib (example_cfg 3) ''k1'' [1, 2, 3]
                     (example_world (\<lambda>k. TransportError ''connection refused''))))
   \<and> length (http_calls (snd (Send example_lib (example_cfg 3) ''k1'' [1, 2, 3]
                     (example_world (\<lambda>k. TransportError ''connection refused''))))) = 3
   \<and> fst (Send example_lib (example_cfg 3) ''k1'' [1, 2, 3]
             (example_world (\<lambda>k. if k = 0 then Response 503 [] else Response 400 []))) =
       \<lparr>Success = False, Message = ClientError 400 [], Retry = False\<rparr>
   \<and> length (http_calls (snd (Send example_lib (example_cfg 3) ''k1'' [1, 2, 3]
             (example_world (\<lambda>k. if k = 0 then Response 503 [] else Response 400 []))))) \<le> 2"
proof -
  have n: "nat (RetryAttempts (Nexus (example_cfg 3))) = 3"
    by (simp add: example_cfg_def)
  note C3_refused =
    Send_attempt_ceiling
      [OF example_app [of 3]
          example_encrypt [of "[1, 2, 3]" "\<lambda>k. TransportError ''connection refused''"]
          example_marshal, unfolded n]
  note C3_mixed =
    Send_attempt_ceiling
      [OF example_app [of 3]
          example_encrypt [of "[1, 2, 3]" "\<lambda>k. if k = 0 then Response 503 [] else Response 400 []"]
          example_marshal, unfolded n]
  let ?refused = "example_world (\<lambda>k. TransportError ''connection refused'')"
  let ?mixed = "example_world (\<lambda>k. if k = 0 then Response 503 [] else Response 400 [])"
  have "\<forall>i<3. retryable_failure
          (attempt_result example_lib (example_cfg 3) ''k1''
             (MasterSecret \<lparr>Name = ''app'', AppKey = ''k1'', MasterSecret = ''AAAA''\<rparr>)
             (example_body [1, 2, 3]) ?refused i)"
    by (simp add: example_attempt retryable_failure_def)
  with C3_refused
  have a: "\<not> Success (fst (Send example_lib (example_cfg 3) ''k1'' [1, 2, 3] ?refused))
      \<and> Retry (fst (Send example_lib (example_cfg 3) ''k1'' [1, 2, 3] ?refused))
      \<and> length (http_calls (snd (Send example_lib (example_cfg 3) ''k1'' [1, 2, 3] ?refused))) = 3"
    by (simp add: example_world_def)
  have lt: "Suc 0 < (3::nat)" by simp
  have first: "\<forall>j<Suc 0. retryable_failure
          (attempt_result example_lib (example_cfg 3) ''k1''
             (MasterSecret \<lparr>Name = ''app'', AppKey = ''k1'', MasterSecret = ''AAAA''\<rparr>)
             (example_body [1, 2, 3]) ?mixed j)"
    by (simp add: example_attempt retryable_failure_def)
  have second: "\<not> retryable_failure
          (attempt_result example_lib (example_cfg 3) ''k1''
             (MasterSecret \<lparr>Name = ''app'', AppKey = ''k1'', MasterSecret = ''AAAA''\<rparr>)
             (example_body [1, 2, 3]) ?mixed (Suc 0))"
    by (simp add: example_attempt retryable_failure_def)
  from C3_mixed lt first second
  have b: "fst (Send example_lib (example_cfg 3) ''k1'' [1, 2, 3] ?mixed) =
        attempt_result example_lib (example_cfg 3) ''k1''
             (MasterSecret \<lparr>Name = ''app'', AppKey = ''k1'', MasterSecret = ''AAAA''\<rparr>)
             (example_body [1, 2, 3]) ?mixed (Suc 0)
      \<and> length (http_calls (snd (Send example_lib (example_cfg 3) ''k1'' [1, 2, 3] ?mixed)))
          \<le> length (http_calls ?mixed) + Suc (Suc 0)"
    by blast
  have c: "attempt_result example_lib (example_cfg 3) ''k1''
             (MasterSecret \<lparr>Name = ''app'', AppKey = ''k1'', MasterSecret = ''AAAA''\<rparr>)
             (example_body [1, 2, 3]) ?mixed (Suc 0) =
           \<lparr>Success = False, Message = ClientError 400 [], Retry = False\<rparr>"
    by (simp add: example_attempt)
  have d: "length (http_calls ?mixed) = 0"
    by (simp add: example_world_def)
  from a b show ?thesis
    unfolding c d by simp
qed

lemma EncryptPayload_Inr:
  assumes "EncryptPayload lib data masterSecretB64 appKey w = (Inr payload, w1)"
  shows "\<exists>masterSecret nonce plaintext.
           b64_DecodeString masterSecretB64 = Inr masterSecret
           \<and> those_bytes (map (rng w) [rng_pos w..<rng_pos w + 12]) = Some nonce
           \<and> json_Marshal lib data = Inr plaintext
           \<and> payload =
               \<lparr>Encrypted = True,
                KeyDate = format_date (clock w (clock_reads w)),
                SecretVersion = 1,
                Nonce = b64_EncodeToString nonce,
                Data = b64_EncodeToString
                  (gcm_Seal lib
                     (GCM (HKDF_SHA256_no_salt masterSecret
                             (bytes_of (''nexus-enigma-'' @ appKey @ ''-'' @
                                        format_date (clock w (clock_reads w)))) 32))
                     nonce plaintext)\<rparr>
           \<and> w1 = w\<lparr>clock_reads := Suc (clock_reads w), rng_pos := rng_pos w + 12\<rparr>"
proof (cases "b64_DecodeString masterSecretB64")
  case (Inl err)
  with assms show ?thesis by (simp add: EncryptPayload_decode_error)
next
  case (Inr masterSecret)
  with assms show ?thesis
    by (auto simp: EncryptPayload_decoded rand_ReadFull_def NonceLength_def
        split: option.splits sum.splits)
qed

lemma send_loop_world:
  "nat (RetryAttempts (Nexus cfg) + 1 - attempt) = k \<Longrightarrow>
   (\<exists>n\<le>k. http_calls (snd (send_loop lib cfg appKey masterSecret body attempt lastErr w)) =
            http_calls w @ replicate n (ingress_request cfg appKey body))
   \<and> rng_pos (snd (send_loop lib cfg appKey masterSecret body attempt lastErr w)) = rng_pos w
   \<and> clock_reads (snd (send_loop lib cfg appKey masterSecret body attempt lastErr w)) =
       clock_reads w"
proof (induction k arbitrary: attempt lastErr w)
  case 0
  then have "\<not> attempt \<le> RetryAttempts (Nexus cfg)" by simp
  then show ?case by (simp add: send_loop_done)
next
  case (Suc k)
  let ?d = "doSend lib cfg appKey masterSecret body w"
  let ?req = "ingress_request cfg appKey body"
  from Suc.prems have le: "attempt \<le> RetryAttempts (Nexus cfg)" by simp
  show ?case
  proof (cases "retryable_failure (fst ?d)")
    case False
    with le have eq: "send_loop lib cfg appKey masterSecret body attempt lastErr w = ?d"
      by (rule send_loop_stop)
    have "\<exists>n\<le>Suc k. http_calls (snd ?d) = http_calls w @ replicate n ?req"
    proof (cases "http_NewRequest_ok lib (ServerURL (Nexus cfg) @ ''/ingress'')")
      case True
      then have "http_calls (snd ?d) = http_calls w @ replicate (Suc 0) ?req"
        by (simp add: doSend_snd)
      then show ?thesis by (intro exI [of _ "Suc 0"]) simp
    next
      case False
      then have "http_calls (snd ?d) = http_calls w @ replicate 0 ?req"
        by (simp add: doSend_snd)
      then show ?thesis by (intro exI [of _ 0]) simp
    qed
    then show ?thesis unfolding eq by (simp add: doSend_snd)
  next
    case True
    let ?w2 = "if attempt < RetryAttempts (Nexus cfg)
               then (snd ?d)\<lparr>slept := slept (snd ?d) @ [RetryDelay (Nexus cfg)]\<rparr> else snd ?d"
    from True have ok: "http_NewRequest_ok lib (ServerURL (Nexus cfg) @ ''/ingress'')"
      by (rule retryable_failure_ok)
    have w2: "http_calls ?w2 = http_calls w @ [?req]" "rng_pos ?w2 = rng_pos w"
      "clock_reads ?w2 = clock_reads w"
      using ok by (simp_all add: doSend_snd)
    have step: "send_loop lib cfg appKey masterSecret body attempt lastErr w =
                send_loop lib cfg appKey masterSecret body (attempt + 1)
                  (Some (Message (fst ?d))) ?w2"
      using le True by (rule send_loop_again)
    have k: "nat (RetryAttempts (Nexus cfg) + 1 - (attempt + 1)) = k"
      using Suc.prems by simp
    from Suc.IH [OF k, of "Some (Message (fst ?d))" ?w2]
    obtain n where n: "n \<le> k"
      and calls: "http_calls (snd (send_loop lib cfg appKey masterSecret body (attempt + 1)
                    (Some (Message (fst ?d))) ?w2)) = http_calls ?w2 @ replicate n ?req"
      and rest: "rng_pos (snd (send_loop lib cfg appKey masterSecret body (attempt + 1)
                    (Some (Message (fst ?d))) ?w2)) = rng_pos ?w2"
                "clock_reads (snd (send_loop lib cfg appKey masterSecret body (attempt + 1)
                    (Some (Message (fst ?d))) ?w2)) = clock_reads ?w2"
      by blast
    have "http_calls ?w2 @ replicate n ?req = http_calls w @ replicate (Suc n) ?req"
      by (simp only: w2) simp
    with calls n have "\<exists>m\<le>Suc k. http_calls (snd (send_loop lib cfg appKey masterSecret body
                    (attempt + 1) (Some (Message (fst ?d))) ?w2)) = http_calls w @ replicate m ?req"
      by (intro exI [of _ "Suc n"]) simp
    with rest show ?thesis unfolding step by (simp only: w2)
  qed
qed

lemma readme_app:
  "GetAppByKey (example_cfg n) ''k2'' =
     Some \<lparr>Name = ''readme'', AppKey = ''k2'', MasterSecret = ''your_master_secret''\<rparr>"
  by (simp add: GetAppByKey_def example_cfg_def)

lemma unknown_app: "GetAppByKey (example_cfg n) ''k3'' = None"
  by (simp add: GetAppByKey_def example_cfg_def)

lemma readme_secret: "b64_DecodeString ''your_master_secret'' = Inl CorruptInput"
  by code_simp

text \<open>
  Claim C4.  When the tenant key resolves to no credential, or the credential is found and
  \<open>EncryptPayload\<close> fails (with whatever error), \<open>Send\<close> returns a failure without
  \<open>Retry\<close> and hands no request to the HTTP client.
\<close>

theorem Send_fails_before_delivery:
  assumes "GetAppByKey cfg appKey = None
           \<or> (\<exists>app err. GetAppByKey cfg appKey = Some app
                \<and> fst (EncryptPayload lib data (MasterSecret app) appKey w) = Inl err)"
  shows "\<not> Success (fst (Send lib cfg appKey data w))
         \<and> \<not> Retry (fst (Send lib cfg appKey data w))
         \<and> http_calls (snd (Send lib cfg appKey data w)) = http_calls w"
  using assms
proof (elim disjE exE conjE)
  assume "GetAppByKey cfg appKey = None"
  then show ?thesis by (simp add: Send_unknown_app)
next
  fix app err
  assume app: "GetAppByKey cfg appKey = Some app"
    and "fst (EncryptPayload lib data (MasterSecret app) appKey w) = Inl err"
  then have enc: "EncryptPayload lib data (MasterSecret app) appKey w =
                    (Inl err, snd (EncryptPayload lib data (MasterSecret app) appKey w))"
    by (simp add: prod_eq_iff)
  show ?thesis
    using Send_encryption_failed [OF app enc]
      EncryptPayload_world [of lib data "MasterSecret app" appKey w]
    by simp
qed

theorem Send_fails_before_delivery_witness:
  "\<not> Success (fst (Send example_lib (example_cfg 3) ''k3'' [1, 2, 3]
                     (example_world (\<lambda>k. Response 200 []))))
   \<and> \<not> Retry (fst (Send example_lib (example_cfg 3) ''k3'' [1, 2, 3]
                     (example_world (\<lambda>k. Response 200 []))))
   \<and> http_calls (snd (Send example_lib (example_cfg 3) ''k3'' [1, 2, 3]
                     (example_world (\<lambda>k. Response 200 [])))) = []
   \<and> \<not> Success (fst (Send example_lib (example_cfg 3) ''k2'' [1, 2, 3]
                     (example_world (\<lambda>k. Response 200 []))))
   \<and> \<not> Retry (fst (Send example_lib (example_cfg 3) ''k2'' [1, 2, 3]
                     (example_world (\<lambda>k. Response 200 []))))
   \<and> http_calls (snd (Send example_lib (example_cfg 3) ''k2'' [1, 2, 3]
                     (example_world (\<lambda>k. Response 200 [])))) = []"
proof -
  let ?w = "example_world (\<lambda>k. Response 200 [])"
  have calls: "http_calls ?w = []" by (simp add: example_world_def)
  have "GetAppByKey (example_cfg 3) ''k3'' = None
        \<or> (\<exists>app err. GetAppByKey (example_cfg 3) ''k3'' = Some app
             \<and> fst (EncryptPayload example_lib [1, 2, 3] (MasterSecret app) ''k3'' ?w) = Inl err)"
    by (simp add: unknown_app)
  from Send_fails_before_delivery [OF this]
  have a: "\<not> Success (fst (Send example_lib (example_cfg 3) ''k3'' [1, 2, 3] ?w))
           \<and> \<not> Retry (fst (Send example_lib (example_cfg 3) ''k3'' [1, 2, 3] ?w))
           \<and> http_calls (snd (Send example_lib (example_cfg 3) ''k3'' [1, 2, 3] ?w)) = []"
    by (simp add: calls)
  have "fst (EncryptPayload example_lib [1, 2, 3]
               (MasterSecret \<lparr>Name = ''readme'', AppKey = ''k2'',
                              MasterSecret = ''your_master_secret''\<rparr>) ''k2'' ?w) =
          Inl (FailedToDecodeMasterSecret CorruptInput)"
    by (simp add: EncryptPayload_decode_error [OF readme_secret])
  with readme_app [of 3]
  have "GetAppByKey (example_cfg 3) ''k2'' = None
        \<or> (\<exists>app err. GetAppByKey (example_cfg 3) ''k2'' = Some app
             \<and> fst (EncryptPayload example_lib [1, 2, 3] (MasterSecret app) ''k2'' ?w) = Inl err)"
    by blast
  from Send_fails_before_delivery [OF this]
  have b: "\<not> Success (fst (Send example_lib (example_cfg 3) ''k2'' [1, 2, 3] ?w))
           \<and> \<not> Retry (fst (Send example_lib (example_cfg 3) ''k2'' [1, 2, 3] ?w))
           \<and> http_calls (snd (Send example_lib (example_cfg 3) ''k2'' [1, 2, 3] ?w)) = []"
    by (simp add: calls)
  from a b show ?thesis by simp
qed

text \<open>
  Claim C9.  When the stored secret is not valid base64, \<open>EncryptPayload\<close> fails with the
  decoding error and leaves the world as it was: it has read neither the clock nor the
  random source, so no key was derived for a date and no nonce drawn.  The secret that the
  interface takes is base64 text; the bytes it stands for are the input keying material.
\<close>

theorem EncryptPayload_requires_base64:
  "b64_DecodeString masterSecretB64 = Inl err \<Longrightarrow>
   fst (EncryptPayload lib data masterSecretB64 appKey w) = Inl (FailedToDecodeMasterSecret err)
   \<and> snd (EncryptPayload lib data masterSecretB64 appKey w) = w
   \<and> clock_reads (snd (EncryptPayload lib data masterSecretB64 appKey w)) = clock_reads w
   \<and> rng_pos (snd (EncryptPayload lib data masterSecretB64 appKey w)) = rng_pos w"
  by (simp add: EncryptPayload_decode_error)

theorem EncryptPayload_requires_base64_witness:
  "fst (EncryptPayload example_lib [1, 2, 3] ''your_master_secret'' ''k2''
          (example_world (\<lambda>k. Response 200 []))) = Inl (FailedToDecodeMasterSecret CorruptInput)
   \<and> snd (EncryptPayload example_lib [1, 2, 3] ''your_master_secret'' ''k2''
          (example_world (\<lambda>k. Response 200 []))) = example_world (\<lambda>k. Response 200 [])"
  using EncryptPayload_requires_base64 [OF readme_secret, of example_lib "[1, 2, 3]" "''k2''"
          "example_world (\<lambda>k. Response 200 [])"]
  by simp

lemma Send_loop_encrypts_once:
  assumes app: "GetAppByKey cfg appKey = Some app"
    and enc: "EncryptPayload lib data (MasterSecret app) appKey w = (Inr payload, w1)"
    and body: "json_Marshal_payload lib payload = Inr body"
  shows
    "(\<exists>n\<le>nat (RetryAttempts (Nexus cfg)).
        http_calls (snd (Send lib cfg appKey data w)) =
          http_calls w @ replicate n (ingress_request cfg appKey body))
     \<and> req_body (ingress_request cfg appKey body) = body
     \<and> http_calls w1 = http_calls w
     \<and> rng_pos (snd (Send lib cfg appKey data w)) = rng_pos w + 12
     \<and> clock_reads (snd (Send lib cfg appKey data w)) = Suc (clock_reads w)
     \<and> KeyDate payload = format_date (clock w (clock_reads w))
     \<and> (\<exists>nonce. those_bytes (map (rng w) [rng_pos w..<rng_pos w + 12]) = Some nonce
           \<and> Nonce payload = b64_EncodeToString nonce)"
proof -
  let ?S = "Send lib cfg appKey data w"
  have S: "?S = send_loop lib cfg appKey (MasterSecret app) body 1 None w1"
    using app enc body by (rule Send_loop)
  from EncryptPayload_Inr [OF enc] obtain masterSecret nonce plaintext where
    nonce: "those_bytes (map (rng w) [rng_pos w..<rng_pos w + 12]) = Some nonce"
    and payload: "payload =
       \<lparr>Encrypted = True, KeyDate = format_date (clock w (clock_reads w)), SecretVersion = 1,
        Nonce = b64_EncodeToString nonce,
        Data = b64_EncodeToString
          (gcm_Seal lib
             (GCM (HKDF_SHA256_no_salt masterSecret
                     (bytes_of (''nexus-enigma-'' @ appKey @ ''-'' @
                                format_date (clock w (clock_reads w)))) 32))
             nonce plaintext)\<rparr>"
    and w1: "w1 = w\<lparr>clock_reads := Suc (clock_reads w), rng_pos := rng_pos w + 12\<rparr>"
    by blast
  have k: "nat (RetryAttempts (Nexus cfg) + 1 - 1) = nat (RetryAttempts (Nexus cfg))"
    by simp
  note loop = send_loop_world [OF k, of lib appKey "MasterSecret app" body None w1]
  from loop have calls: "\<exists>n\<le>nat (RetryAttempts (Nexus cfg)).
        http_calls (snd ?S) = http_calls w @ replicate n (ingress_request cfg appKey body)"
    unfolding S by (simp add: w1)
  from loop have pos: "rng_pos (snd ?S) = rng_pos w + 12"
    and reads: "clock_reads (snd ?S) = Suc (clock_reads w)"
    unfolding S by (simp_all add: w1)
  have date: "KeyDate payload = format_date (clock w (clock_reads w))"
    and "Nonce payload = b64_EncodeToString nonce"
    by (simp_all add: payload)
  with nonce have drawn: "\<exists>nonce. those_bytes (map (rng w) [rng_pos w..<rng_pos w + 12]) = Some nonce
           \<and> Nonce payload = b64_EncodeToString nonce"
    by blast
  have "req_body (ingress_request cfg appKey body) = body"
    by (simp add: ingress_request_def)
  moreover have "http_calls w1 = http_calls w"
    by (simp add: w1)
  ultimately show ?thesis using calls pos reads date drawn by blast
qed

subsection \<open>One encryption for each Send\<close>

lemma EncryptPayload_reads:
  "rng_pos (snd (EncryptPayload lib data masterSecretB64 appKey w)) \<le> rng_pos w + 12
   \<and> clock_reads (snd (EncryptPayload lib data masterSecretB64 appKey w))
       \<le> Suc (clock_reads w)"
proof (cases "b64_DecodeString masterSecretB64")
  case (Inl err)
  then show ?thesis by (simp add: EncryptPayload_decode_error)
next
  case (Inr masterSecret)
  then show ?thesis
    by (simp add: EncryptPayload_decoded rand_ReadFull_def NonceLength_def
        split: option.splits sum.splits)
qed

text \<open>
  Claim C10.  Every call of \<open>Send\<close> reads the clock and draws a nonce at most once, and
  the requests it hands to the HTTP client are copies of one request.  If any request
  goes out, the call has encrypted exactly once, before the first request (one clock
  reading, one 12-byte nonce, whatever the number of attempts), and the body of every
  request is the serialization of that one envelope: one nonce, one ciphertext, one key
  date.
\<close>

theorem Send_encrypts_once:
  "\<exists>n body.
     n \<le> nat (RetryAttempts (Nexus cfg))
     \<and> http_calls (snd (Send lib cfg appKey data w)) =
         http_calls w @ replicate n (ingress_request cfg appKey body)
     \<and> req_body (ingress_request cfg appKey body) = body
     \<and> rng_pos (snd (Send lib cfg appKey data w)) \<le> rng_pos w + 12
     \<and> clock_reads (snd (Send lib cfg appKey data w)) \<le> Suc (clock_reads w)
     \<and> (0 < n \<longrightarrow>
          rng_pos (snd (Send lib cfg appKey data w)) = rng_pos w + 12
          \<and> clock_reads (snd (Send lib cfg appKey data w)) = Suc (clock_reads w)
          \<and> (\<exists>app payload nonce.
                GetAppByKey cfg appKey = Some app
                \<and> fst (EncryptPayload lib data (MasterSecret app) appKey w) = Inr payload
                \<and> http_calls (snd (EncryptPayload lib data (MasterSecret app) appKey w)) =
                    http_calls w
                \<and> json_Marshal_payload lib payload = Inr body
                \<and> KeyDate payload = format_date (clock w (clock_reads w))
                \<and> those_bytes (map (rng w) [rng_pos w..<rng_pos w + 12]) = Some nonce
                \<and> Nonce payload = b64_EncodeToString nonce))"
proof -
  let ?S = "Send lib cfg appKey data w"
  have none: "\<exists>n body.
     n \<le> nat (RetryAttempts (Nexus cfg))
     \<and> http_calls (snd ?S) = http_calls w @ replicate n (ingress_request cfg appKey body)
     \<and> req_body (ingress_request cfg appKey body) = body
     \<and> rng_pos (snd ?S) \<le> rng_pos w + 12
     \<and> clock_reads (snd ?S) \<le> Suc (clock_reads w)
     \<and> (0 < n \<longrightarrow>
          rng_pos (snd ?S) = rng_pos w + 12
          \<and> clock_reads (snd ?S) = Suc (clock_reads w)
          \<and> (\<exists>app payload nonce.
                GetAppByKey cfg appKey = Some app
                \<and> fst (EncryptPayload lib data (MasterSecret app) appKey w) = Inr payload
                \<and> http_calls (snd (EncryptPayload lib data (MasterSecret app) appKey w)) =
                    http_calls w
                \<and> json_Marshal_payload lib payload = Inr body
                \<and> KeyDate payload = format_date (clock w (clock_reads w))
                \<and> those_bytes (map (rng w) [rng_pos w..<rng_pos w + 12]) = Some nonce
                \<and> Nonce payload = b64_EncodeToString nonce))"
    if "http_calls (snd ?S) = http_calls w"
      and "rng_pos (snd ?S) \<le> rng_pos w + 12"
      and "clock_reads (snd ?S) \<le> Suc (clock_reads w)"
    using that
    by (intro exI [of _ 0] exI [of _ "[]"]) (simp add: ingress_request_def)
  show ?thesis
  proof (cases "GetAppByKey cfg appKey")
    case None
    then show ?thesis by (intro none) (simp_all add: Send_unknown_app)
  next
    case (Some app)
    obtain r w1 where enc: "EncryptPayload lib data (MasterSecret app) appKey w = (r, w1)"
      by (cases "EncryptPayload lib data (MasterSecret app) appKey w")
    have w1: "http_calls w1 = http_calls w"
      using EncryptPayload_world [of lib data "MasterSecret app" appKey w] enc by simp
    have reads: "rng_pos w1 \<le> rng_pos w + 12" "clock_reads w1 \<le> Suc (clock_reads w)"
      using EncryptPayload_reads [of lib data "MasterSecret app" appKey w] enc by simp_all
    show ?thesis
    proof (cases r)
      case (Inl err)
      with Some enc w1 reads show ?thesis
        by (intro none) (simp_all add: Send_encryption_failed)
    next
      case (Inr payload)
      note enc' = enc [unfolded Inr]
      show ?thesis
      proof (cases "json_Marshal_payload lib payload")
        case (Inl err)
        with Some enc' w1 reads show ?thesis
          by (intro none) (simp_all add: Send_marshal_failed)
      next
        case body: (Inr body)
        from Send_loop_encrypts_once [OF Some enc' body]
        obtain n nonce where n: "n \<le> nat (RetryAttempts (Nexus cfg))"
          and calls: "http_calls (snd ?S) =
                        http_calls w @ replicate n (ingress_request cfg appKey body)"
          and rb: "req_body (ingress_request cfg appKey body) = body"
          and pos: "rng_pos (snd ?S) = rng_pos w + 12"
          and clk: "clock_reads (snd ?S) = Suc (clock_reads w)"
          and date: "KeyDate payload = format_date (clock w (clock_reads w))"
          and nonce: "those_bytes (map (rng w) [rng_pos w..<rng_pos w + 12]) = Some nonce"
            "Nonce payload = b64_EncodeToString nonce"
          by blast
        have "\<exists>app payload nonce.
                GetAppByKey cfg appKey = Some app
                \<and> fst (EncryptPayload lib data (MasterSecret app) appKey w) = Inr payload
                \<and> http_calls (snd (EncryptPayload lib data (MasterSecret app) appKey w)) =
                    http_calls w
                \<and> json_Marshal_payload lib payload = Inr body
                \<and> KeyDate payload = format_date (clock w (clock_reads w))
                \<and> those_bytes (map (rng w) [rng_pos w..<rng_pos w + 12]) = Some nonce
                \<and> Nonce payload = b64_EncodeToString nonce"
          using Some enc' w1 body date nonce
          by (intro exI [of _ app] exI [of _ payload] exI [of _ nonce]) simp
        with n calls rb pos clk show ?thesis
          by (intro exI [of _ n] exI [of _ body]) simp
      qed
    qed
  qed
qed

theorem Send_encrypts_once_witness:
  "http_calls (snd (Send example_lib (example_cfg 3) ''k1'' [1, 2, 3]
                      (example_world (\<lambda>k. TransportError ''connection refused'')))) =
     replicate 3 (ingress_request (example_cfg 3) ''k1'' (example_body [1, 2, 3]))
   \<and> rng_pos (snd (Send example_lib (example_cfg 3) ''k1'' [1, 2, 3]
                      (example_world (\<lambda>k. TransportError ''connection refused'')))) = 12
   \<and> clock_reads (snd (Send example_lib (example_cfg 3) ''k1'' [1, 2, 3]
                      (example_world (\<lambda>k. TransportError ''connection refused'')))) = 1"
proof -
  let ?w = "example_world (\<lambda>k. TransportError ''connection refused'')"
  let ?S = "Send example_lib (example_cfg 3) ''k1'' [1, 2, 3] ?w"
  have w: "http_calls ?w = []" "rng_pos ?w = 0" "clock_reads ?w = 0"
    by (simp_all add: example_world_def)
  have len: "length (http_calls (snd ?S)) = 3"
    using example_Send_refused [of "[1, 2, 3]"] by simp
  from Send_encrypts_once
         [where lib = example_lib and cfg = "example_cfg 3" and appKey = "''k1''"
            and data = "[1, 2, 3]" and w = ?w]
  obtain n body where
    calls: "http_calls (snd ?S) =
              http_calls ?w @ replicate n (ingress_request (example_cfg 3) ''k1'' body)"
    and once: "0 < n \<longrightarrow>
          rng_pos (snd ?S) = rng_pos ?w + 12
          \<and> clock_reads (snd ?S) = Suc (clock_reads ?w)
          \<and> (\<exists>app payload nonce.
                GetAppByKey (example_cfg 3) ''k1'' = Some app
                \<and> fst (EncryptPayload example_lib [1, 2, 3] (MasterSecret app) ''k1'' ?w) =
                    Inr payload
                \<and> http_calls (snd (EncryptPayload example_lib [1, 2, 3] (MasterSecret app)
                                      ''k1'' ?w)) = http_calls ?w
                \<and> json_Marshal_payload example_lib payload = Inr body
                \<and> KeyDate payload = format_date (clock ?w (clock_reads ?w))
                \<and> those_bytes (map (rng ?w) [rng_pos ?w..<rng_pos ?w + 12]) = Some nonce
                \<and> Nonce payload = b64_EncodeToString nonce)"
    by blast
  from calls len have n: "n = 3" by (simp add: w)
  with once obtain app payload where
    pos: "rng_pos (snd ?S) = rng_pos ?w + 12"
    and clk: "clock_reads (snd ?S) = Suc (clock_reads ?w)"
    and app: "GetAppByKey (example_cfg 3) ''k1'' = Some app"
    and payload: "fst (EncryptPayload example_lib [1, 2, 3] (MasterSecret app) ''k1'' ?w) =
                    Inr payload"
    and body: "json_Marshal_payload example_lib payload = Inr body"
    by auto
  from app have "app = \<lparr>Name = ''app'', AppKey = ''k1'', MasterSecret = ''AAAA''\<rparr>"
    by (simp add: example_app)
  with payload have "payload = example_payload [1, 2, 3]"
    using example_encrypt [of "[1, 2, 3]" "\<lambda>k. TransportError ''connection refused''"]
    by simp
  with body have "body = example_body [1, 2, 3]"
    by (simp add: example_marshal)
  with calls n pos clk show ?thesis
    by (simp add: w)
qed

section \<open>The queue\<close>

lemma db_exec_eq: "db_exec q = (db_fails q (db_stmts q), q\<lparr>db_stmts := Suc (db_stmts q)\<rparr>)"
  by (simp add: db_exec_def)

lemma fold_max_ge: "(a::int) \<le> fold max xs a"
proof (induction xs arbitrary: a)
  case Nil
  then show ?case by simp
next
  case (Cons x xs)
  have "a \<le> max x a" by simp
  also have "\<dots> \<le> fold max xs (max x a)" by (rule Cons.IH)
  finally show ?case by simp
qed

lemma fold_max_mem: "(x::int) \<in> set xs \<Longrightarrow> x \<le> fold max xs a"
proof (induction xs arbitrary: a)
  case Nil
  then show ?case by simp
next
  case (Cons y xs)
  show ?case
  proof (cases "x = y")
    case True
    have "x \<le> max y a" using True by simp
    also have "\<dots> \<le> fold max xs (max y a)" by (rule fold_max_ge)
    finally show ?thesis by simp
  next
    case False
    with Cons.prems have "x \<in> set xs" by simp
    then show ?thesis using Cons.IH by simp
  qed
qed

lemma next_id_gt_rows: "r \<in> set (rows q) \<Longrightarrow> row_id r < next_id q"
  using fold_max_mem [of "row_id r" "map row_id (rows q)" "seq q"]
  by (simp add: next_id_def)

lemma next_id_gt_seq: "seq q < next_id q"
  using fold_max_ge [of "seq q" "map row_id (rows q)"] by (simp add: next_id_def)

lemma next_id_db_stmts: "next_id (q\<lparr>db_stmts := n\<rparr>) = next_id q"
  by (simp add: next_id_def)

lemma Enqueue_check_failed:
  "db_fails q (db_stmts q) \<Longrightarrow>
   Enqueue lib appKey data q = (Inl FailedToCheckQueueSize, q\<lparr>db_stmts := Suc (db_stmts q)\<rparr>)"
  by (simp add: Enqueue_def db_exec_eq)

lemma Enqueue_full:
  "\<not> db_fails q (db_stmts q) \<Longrightarrow> maxSize q \<le> int (length (rows q)) \<Longrightarrow>
   Enqueue lib appKey data q = (Inl (QueueIsFull (maxSize q)), q\<lparr>db_stmts := Suc (db_stmts q)\<rparr>)"
  by (simp add: Enqueue_def db_exec_eq)

lemma Enqueue_not_full:
  assumes "\<not> db_fails q (db_stmts q)" "int (length (rows q)) < maxSize q"
  shows "Enqueue lib appKey data q =
     (case json_Marshal lib data of
        Inl err \<Rightarrow> (Inl (FailedToMarshal err), q\<lparr>db_stmts := Suc (db_stmts q)\<rparr>)
      | Inr dataJSON \<Rightarrow>
          if db_fails q (Suc (db_stmts q)) \<or> next_id q > 2 ^ 63 - 1
          then (Inl FailedToInsertMessage, q\<lparr>db_stmts := Suc (Suc (db_stmts q))\<rparr>)
          else (Inr (next_id q),
                q\<lparr>db_stmts := Suc (Suc (db_stmts q)),
                  rows := rows q @
                    [\<lparr>row_id = next_id q, row_app_key = appKey, row_data = dataJSON,
                      row_created_at = db_clock q (Suc (db_stmts q)), row_attempts = 0\<rparr>],
                  seq := next_id q\<rparr>))"
  using assms
  by (simp add: Enqueue_def db_exec_eq next_id_db_stmts split: sum.splits bool.splits)

lemma Enqueue_Inl_rows:
  assumes "Enqueue lib appKey data q = (Inl e, q')"
  shows "rows q' = rows q \<and> maxSize q' = maxSize q"
proof (cases "db_fails q (db_stmts q)")
  case True
  with assms show ?thesis by (auto simp: Enqueue_check_failed)
next
  case ok: False
  show ?thesis
  proof (cases "maxSize q \<le> int (length (rows q))")
    case True
    with ok assms show ?thesis by (auto simp: Enqueue_full)
  next
    case False
    with ok assms show ?thesis
      by (auto simp: Enqueue_not_full split: sum.splits if_splits)
  qed
qed

lemma Enqueue_Inr:
  assumes "Enqueue lib appKey data q = (Inr i, q')"
  shows "\<not> db_fails q (db_stmts q) \<and> int (length (rows q)) < maxSize q
         \<and> i = next_id q \<and> seq q' = i \<and> maxSize q' = maxSize q
         \<and> (\<exists>dataJSON. json_Marshal lib data = Inr dataJSON
              \<and> rows q' = rows q @
                   [\<lparr>row_id = i, row_app_key = appKey, row_data = dataJSON,
                     row_created_at = db_clock q (Suc (db_stmts q)), row_attempts = 0\<rparr>])"
proof (cases "db_fails q (db_stmts q)")
  case True
  with assms show ?thesis by (simp add: Enqueue_check_failed)
next
  case ok: False
  show ?thesis
  proof (cases "maxSize q \<le> int (length (rows q))")
    case True
    with ok assms show ?thesis by (simp add: Enqueue_full)
  next
    case False
    with ok assms show ?thesis
      by (auto simp: Enqueue_not_full split: sum.splits if_splits)
  qed
qed

lemma Enqueue_full_iff:
  "(\<exists>m. fst (Enqueue lib appKey data q) = Inl (QueueIsFull m))
     \<longleftrightarrow> \<not> db_fails q (db_stmts q) \<and> maxSize q \<le> int (length (rows q))"
proof (cases "db_fails q (db_stmts q)")
  case True
  then show ?thesis by (simp add: Enqueue_check_failed)
next
  case ok: False
  show ?thesis
  proof (cases "maxSize q \<le> int (length (rows q))")
    case True
    with ok show ?thesis by (simp add: Enqueue_full)
  next
    case False
    with ok show ?thesis
      by (auto simp: Enqueue_not_full split: sum.splits if_splits)
  qed
qed

text \<open>
  Claim C5, as the code has it.  \<open>Enqueue\<close> fails with the queue-full error exactly when
  its size query succeeds and finds at least \<open>maxSize\<close> rows (the test is
  \<^verbatim>\<open>count >= q.maxSize\<close>, so a table that holds more rows than the configured capacity,
  as after a restart with a smaller \<^verbatim>\<open>max_size\<close>, is full as well).  A successful
  \<open>Enqueue\<close> found fewer rows than \<open>maxSize\<close> and adds one, so the size after it is at
  most \<open>maxSize\<close>; a failed one stores nothing.  For a table within its capacity, full
  means that the size equals the capacity.
\<close>

theorem Enqueue_capacity:
  "((\<exists>m. fst (Enqueue lib appKey data q) = Inl (QueueIsFull m))
       \<longleftrightarrow> \<not> db_fails q (db_stmts q) \<and> maxSize q \<le> int (length (rows q)))
   \<and> (\<forall>i q'. Enqueue lib appKey data q = (Inr i, q') \<longrightarrow>
         int (length (rows q)) < maxSize q
         \<and> length (rows q') = Suc (length (rows q))
         \<and> int (length (rows q')) \<le> maxSize q')
   \<and> (\<forall>e q'. Enqueue lib appKey data q = (Inl e, q') \<longrightarrow> rows q' = rows q)
   \<and> (int (length (rows q)) \<le> maxSize q \<longrightarrow>
        ((\<exists>m. fst (Enqueue lib appKey data q) = Inl (QueueIsFull m))
           \<longleftrightarrow> \<not> db_fails q (db_stmts q) \<and> int (length (rows q)) = maxSize q))"
proof (intro conjI allI impI)
  show "(\<exists>m. fst (Enqueue lib appKey data q) = Inl (QueueIsFull m))
       \<longleftrightarrow> \<not> db_fails q (db_stmts q) \<and> maxSize q \<le> int (length (rows q))"
    by (rule Enqueue_full_iff)
next
  assume "int (length (rows q)) \<le> maxSize q"
  then show "(\<exists>m. fst (Enqueue lib appKey data q) = Inl (QueueIsFull m))
       \<longleftrightarrow> \<not> db_fails q (db_stmts q) \<and> int (length (rows q)) = maxSize q"
    unfolding Enqueue_full_iff by auto
next
  fix i q'
  assume ok: "Enqueue lib appKey data q = (Inr i, q')"
  note facts = Enqueue_Inr [OF ok]
  from facts show "int (length (rows q)) < maxSize q" by simp
  from facts show len: "length (rows q') = Suc (length (rows q))" by auto
  from facts have "maxSize q' = maxSize q" "int (length (rows q)) < maxSize q" by simp_all
  with len show "int (length (rows q')) \<le> maxSize q'" by simp
next
  fix e q'
  assume "Enqueue lib appKey data q = (Inl e, q')"
  then show "rows q' = rows q" by (simp add: Enqueue_Inl_rows)
qed

text \<open>
  The claim as stated (full iff the size equals the capacity) fails on a table above its
  capacity: two rows against a capacity of one.
\<close>

theorem Enqueue_full_above_capacity:
  "fst (Enqueue example_lib ''k1'' [1, 2, 3]
          (example_queue [example_row 1 0, example_row 2 0] 1)) = Inl (QueueIsFull 1)
   \<and> int (length (rows (example_queue [example_row 1 0, example_row 2 0] 1)))
       \<noteq> maxSize (example_queue [example_row 1 0, example_row 2 0] 1)"
  by (simp add: Enqueue_def db_exec_def example_queue_def)

theorem Enqueue_capacity_witness:
  "fst (Enqueue example_lib ''k1'' [1, 2, 3]
          (example_queue [example_row 1 0, example_row 2 0] 2)) = Inl (QueueIsFull 2)
   \<and> fst (Enqueue example_lib ''k1'' [1, 2, 3] (example_queue [example_row 1 0] 2)) = Inr 2
   \<and> length (rows (snd (Enqueue example_lib ''k1'' [1, 2, 3]
                           (example_queue [example_row 1 0] 2)))) = 2
   \<and> rows (snd (Enqueue example_lib ''k1'' [1, 2, 3]
                   (example_queue [example_row 1 0, example_row 2 0] 2))) =
       [example_row 1 0, example_row 2 0]"
proof -
  let ?full = "example_queue [example_row 1 0, example_row 2 0] 2"
  let ?one = "example_queue [example_row 1 0] 2"
  note C5_full = Enqueue_capacity [of example_lib "''k1''" "[1, 2, 3]" ?full]
  note C5_one = Enqueue_capacity [of example_lib "''k1''" "[1, 2, 3]" ?one]
  have "\<not> db_fails ?full (db_stmts ?full) \<and> maxSize ?full \<le> int (length (rows ?full))"
    by (simp add: example_queue_def)
  with C5_full obtain m where
    m: "fst (Enqueue example_lib ''k1'' [1, 2, 3] ?full) = Inl (QueueIsFull m)"
    by blast
  have "fst (Enqueue example_lib ''k1'' [1, 2, 3] ?full) = Inl (QueueIsFull (maxSize ?full))"
    by (simp add: Enqueue_def db_exec_def example_queue_def)
  with m have a: "fst (Enqueue example_lib ''k1'' [1, 2, 3] ?full) = Inl (QueueIsFull 2)"
    by (simp add: example_queue_def)
  then have "Enqueue example_lib ''k1'' [1, 2, 3] ?full =
               (Inl (QueueIsFull 2), snd (Enqueue example_lib ''k1'' [1, 2, 3] ?full))"
    by (simp add: prod_eq_iff)
  with C5_full have b: "rows (snd (Enqueue example_lib ''k1'' [1, 2, 3] ?full)) = rows ?full"
    by blast
  have c: "fst (Enqueue example_lib ''k1'' [1, 2, 3] ?one) = Inr 2"
    by (simp add: Enqueue_def db_exec_def example_queue_def example_row_def example_lib_def
        next_id_def)
  then have "Enqueue example_lib ''k1'' [1, 2, 3] ?one =
               (Inr 2, snd (Enqueue example_lib ''k1'' [1, 2, 3] ?one))"
    by (simp add: prod_eq_iff)
  with C5_one have "length (rows (snd (Enqueue example_lib ''k1'' [1, 2, 3] ?one))) =
                      Suc (length (rows ?one))"
    by blast
  then have d: "length (rows (snd (Enqueue example_lib ''k1'' [1, 2, 3] ?one))) = 2"
    by (simp add: example_queue_def)
  from a b c d show ?thesis by (simp add: example_queue_def)
qed

lemma first_by_id_None: "first_by_id rs = None \<longleftrightarrow> rs = []"
  by (induction rs) (auto split: option.splits)

lemma first_by_id_Some:
  "first_by_id rs = Some m \<Longrightarrow> m \<in> set rs \<and> (\<forall>r \<in> set rs. row_id m \<le> row_id r)"
proof (induction rs arbitrary: m)
  case Nil
  then show ?case by simp
next
  case (Cons r rs)
  show ?case
  proof (cases "first_by_id rs")
    case None
    then have "rs = []" by (simp add: first_by_id_None)
    with Cons.prems show ?thesis by simp
  next
    case (Some m')
    from Cons.IH [OF Some] have m': "m' \<in> set rs" "\<forall>x \<in> set rs. row_id m' \<le> row_id x"
      by simp_all
    show ?thesis
    proof (cases "row_id r \<le> row_id m'")
      case True
      with Some Cons.prems have "m = r" by simp
      with True m' show ?thesis by auto
    next
      case False
      with Some Cons.prems have "m = m'" by simp
      with False m' show ?thesis by auto
    qed
  qed
qed

lemma Dequeue_failed:
  "db_fails q (db_stmts q) \<Longrightarrow>
   Dequeue lib q = (Inl FailedToDequeue, q\<lparr>db_stmts := Suc (db_stmts q)\<rparr>)"
  by (simp add: Dequeue_def db_exec_eq)

lemma Dequeue_ok:
  "\<not> db_fails q (db_stmts q) \<Longrightarrow>
   Dequeue lib q =
     (case first_by_id (rows q) of
        None \<Rightarrow> Inr None
      | Some r \<Rightarrow>
          (case json_Unmarshal lib (row_data r) of
             Inl err \<Rightarrow> Inl (FailedToUnmarshal err)
           | Inr d \<Rightarrow>
               Inr (Some \<lparr>ID = row_id r, msg_AppKey = row_app_key r, msg_Data = d,
                          CreatedAt = row_created_at r, Attempts = row_attempts r\<rparr>)),
      q\<lparr>db_stmts := Suc (db_stmts q)\<rparr>)"
  by (simp add: Dequeue_def db_exec_eq split: option.splits sum.splits)

lemma Dequeue_snd: "snd (Dequeue lib q) = q\<lparr>db_stmts := Suc (db_stmts q)\<rparr>"
  by (cases "db_fails q (db_stmts q)") (simp_all add: Dequeue_failed Dequeue_ok)

lemma Dequeue_Some:
  assumes "Dequeue lib q = (Inr (Some msg), q1)"
  shows "\<not> db_fails q (db_stmts q) \<and> q1 = q\<lparr>db_stmts := Suc (db_stmts q)\<rparr>
         \<and> (\<exists>r \<in> set (rows q).
               (\<forall>r' \<in> set (rows q). row_id r \<le> row_id r')
               \<and> json_Unmarshal lib (row_data r) = Inr (msg_Data msg)
               \<and> ID msg = row_id r \<and> msg_AppKey msg = row_app_key r
               \<and> CreatedAt msg = row_created_at r \<and> Attempts msg = row_attempts r)"
proof (cases "db_fails q (db_stmts q)")
  case True
  with assms show ?thesis by (simp add: Dequeue_failed)
next
  case False
  with assms obtain r d where r: "first_by_id (rows q) = Some r"
    and d: "json_Unmarshal lib (row_data r) = Inr d"
    and msg: "msg = \<lparr>ID = row_id r, msg_AppKey = row_app_key r, msg_Data = d,
                     CreatedAt = row_created_at r, Attempts = row_attempts r\<rparr>"
    and q1: "q1 = q\<lparr>db_stmts := Suc (db_stmts q)\<rparr>"
    by (auto simp: Dequeue_ok split: option.splits sum.splits)
  from first_by_id_Some [OF r] d msg have
    "\<exists>r \<in> set (rows q).
        (\<forall>r' \<in> set (rows q). row_id r \<le> row_id r')
        \<and> json_Unmarshal lib (row_data r) = Inr (msg_Data msg)
        \<and> ID msg = row_id r \<and> msg_AppKey msg = row_app_key r
        \<and> CreatedAt msg = row_created_at r \<and> Attempts msg = row_attempts r"
    by (intro bexI [of _ r]) simp_all
  with False q1 show ?thesis by simp
qed

lemma Remove_ok:
  "\<not> db_fails q (db_stmts q) \<Longrightarrow>
   Remove i q = (None, q\<lparr>db_stmts := Suc (db_stmts q),
                         rows := filter (\<lambda>r. row_id r \<noteq> i) (rows q)\<rparr>)"
  by (simp add: Remove_def db_exec_eq)




lemma length_filter_distinct:
  assumes "distinct (map f xs)" "x \<in> set xs"
  shows "length (filter (\<lambda>r. f r \<noteq> f x) xs) = length xs - 1"
  using assms
proof (induction xs)
  case Nil
  then show ?case by simp
next
  case (Cons y ys)
  show ?case
  proof (cases "f y = f x")
    case True
    with Cons.prems have "\<forall>r \<in> set ys. f r \<noteq> f x" by (auto simp: image_iff)
    then have "filter (\<lambda>r. f r \<noteq> f x) ys = ys" by (simp add: filter_id_conv)
    with True show ?thesis by simp
  next
    case False
    with Cons.prems have "x \<in> set ys" by auto
    moreover from Cons.prems have "distinct (map f ys)" by simp
    ultimately have "length (filter (\<lambda>r. f r \<noteq> f x) ys) = length ys - 1"
      using Cons.IH by simp
    moreover from \<open>x \<in> set ys\<close> have "0 < length ys" by (cases ys) simp_all
    ultimately show ?thesis using False by simp
  qed
qed

lemma drain_ids_ascending:
  "store_ok q \<Longrightarrow> rows_parse lib q \<Longrightarrow> distinct (map row_id (rows q)) \<Longrightarrow>
   length (rows q) = n \<Longrightarrow>
   sorted_wrt (<) (drain_ids lib n q) \<and> set (drain_ids lib n q) = row_id ` set (rows q)"
proof (induction n arbitrary: q)
  case 0
  then show ?case by simp
next
  case (Suc n)
  from Suc.prems have ok: "\<not> db_fails q k" for k by (simp add: store_ok_def)
  from Suc.prems have "rows q \<noteq> []" by auto
  then obtain r where r: "first_by_id (rows q) = Some r"
    by (cases "first_by_id (rows q)") (simp_all add: first_by_id_None)
  from first_by_id_Some [OF r] have mem: "r \<in> set (rows q)"
    and least: "\<forall>x \<in> set (rows q). row_id r \<le> row_id x" by simp_all
  from mem Suc.prems obtain d where d: "json_Unmarshal lib (row_data r) = Inr d"
    by (auto simp: rows_parse_def)
  let ?msg = "\<lparr>ID = row_id r, msg_AppKey = row_app_key r, msg_Data = d,
               CreatedAt = row_created_at r, Attempts = row_attempts r\<rparr>"
  let ?q2 = "q\<lparr>db_stmts := Suc (Suc (db_stmts q)),
               rows := filter (\<lambda>x. row_id x \<noteq> row_id r) (rows q)\<rparr>"
  have deq: "Dequeue lib q = (Inr (Some ?msg), q\<lparr>db_stmts := Suc (db_stmts q)\<rparr>)"
    using ok r d by (simp add: Dequeue_ok)
  have rem: "snd (Remove (row_id r) (q\<lparr>db_stmts := Suc (db_stmts q)\<rparr>)) = ?q2"
    using ok by (simp add: Remove_ok)
  have unfold: "drain_ids lib (Suc n) q = row_id r # drain_ids lib n ?q2"
    using deq rem by simp
  have "store_ok ?q2" using Suc.prems by (simp add: store_ok_def)
  moreover have "rows_parse lib ?q2" using Suc.prems by (simp add: rows_parse_def)
  moreover have "distinct (map row_id (rows ?q2))"
    using Suc.prems by (simp add: distinct_map_filter)
  moreover have "length (rows ?q2) = n"
    using length_filter_distinct [of row_id "rows q" r] Suc.prems mem by simp
  ultimately have IH: "sorted_wrt (<) (drain_ids lib n ?q2)"
    "set (drain_ids lib n ?q2) = row_id ` set (rows ?q2)"
    using Suc.IH [of ?q2] by simp_all
  have rest: "row_id ` set (rows ?q2) = row_id ` set (rows q) - {row_id r}"
    by auto
  have "\<forall>i \<in> set (drain_ids lib n ?q2). row_id r < i"
  proof
    fix i assume "i \<in> set (drain_ids lib n ?q2)"
    then have "i \<in> row_id ` set (rows q)" "i \<noteq> row_id r"
      using IH(2) rest by auto
    with least show "row_id r < i" by force
  qed
  with IH(1) have "sorted_wrt (<) (drain_ids lib (Suc n) q)"
    unfolding unfold by simp
  moreover have "set (drain_ids lib (Suc n) q) = row_id ` set (rows q)"
    unfolding unfold using IH(2) rest mem by auto
  ultimately show ?case by simp
qed

lemma Enqueue_distinct:
  assumes "Enqueue lib appKey data q = (Inr i, q')" "distinct (map row_id (rows q))"
  shows "distinct (map row_id (rows q'))"
proof -
  from Enqueue_Inr [OF assms(1)] obtain dataJSON where
    i: "i = next_id q"
    and rows: "rows q' = rows q @
        [\<lparr>row_id = i, row_app_key = appKey, row_data = dataJSON,
          row_created_at = db_clock q (Suc (db_stmts q)), row_attempts = 0\<rparr>]"
    by blast
  have "i \<notin> row_id ` set (rows q)"
    using next_id_gt_rows [of _ q] i by force
  with assms(2) rows show ?thesis by simp
qed

text \<open>
  Claim C6.  \<open>Dequeue\<close> changes nothing in the queue but the count of statements run.
  When its query succeeds it returns no message for an empty table and, for a non-empty
  one, the row of least id as a message (or the error of unmarshalling that row's payload
  text); every message it returns is the row of least id.  Hence, where the store does not
  fail and the rows unmarshal, rounds of \<open>Dequeue\<close> and \<open>Remove\<close> yield all ids in
  strictly ascending order; and since \<open>Enqueue\<close> gives a new message an id above every
  stored id and above the sequence entry, ascending ids are insertion order.
\<close>

theorem Dequeue_oldest_first:
  "snd (Dequeue lib q) = q\<lparr>db_stmts := Suc (db_stmts q)\<rparr>
   \<and> rows (snd (Dequeue lib q)) = rows q
   \<and> (\<not> db_fails q (db_stmts q) \<and> rows q = [] \<longrightarrow> fst (Dequeue lib q) = Inr None)
   \<and> (\<not> db_fails q (db_stmts q) \<and> rows q \<noteq> [] \<longrightarrow>
        (\<exists>r \<in> set (rows q).
           (\<forall>r' \<in> set (rows q). row_id r \<le> row_id r')
           \<and> fst (Dequeue lib q) =
               (case json_Unmarshal lib (row_data r) of
                  Inl err \<Rightarrow> Inl (FailedToUnmarshal err)
                | Inr d \<Rightarrow>
                    Inr (Some \<lparr>ID = row_id r, msg_AppKey = row_app_key r, msg_Data = d,
                               CreatedAt = row_created_at r, Attempts = row_attempts r\<rparr>))))
   \<and> (\<forall>msg. fst (Dequeue lib q) = Inr (Some msg) \<longrightarrow>
        (\<exists>r \<in> set (rows q).
           (\<forall>r' \<in> set (rows q). row_id r \<le> row_id r')
           \<and> ID msg = row_id r \<and> msg_AppKey msg = row_app_key r
           \<and> json_Unmarshal lib (row_data r) = Inr (msg_Data msg)
           \<and> CreatedAt msg = row_created_at r \<and> Attempts msg = row_attempts r))
   \<and> (store_ok q \<and> rows_parse lib q \<and> distinct (map row_id (rows q)) \<longrightarrow>
        sorted_wrt (<) (drain_ids lib (length (rows q)) q)
        \<and> set (drain_ids lib (length (rows q)) q) = row_id ` set (rows q))
   \<and> (\<forall>appKey data i q'. Enqueue lib appKey data q = (Inr i, q') \<longrightarrow>
        (\<forall>r \<in> set (rows q). row_id r < i) \<and> seq q < i \<and> seq q' = i
        \<and> (\<exists>r. rows q' = rows q @ [r] \<and> row_id r = i)
        \<and> (distinct (map row_id (rows q)) \<longrightarrow> distinct (map row_id (rows q'))))"
proof (intro conjI allI impI)
  show "snd (Dequeue lib q) = q\<lparr>db_stmts := Suc (db_stmts q)\<rparr>"
    by (rule Dequeue_snd)
  then show "rows (snd (Dequeue lib q)) = rows q"
    by simp
next
  assume "\<not> db_fails q (db_stmts q) \<and> rows q = []"
  then show "fst (Dequeue lib q) = Inr None"
    by (simp add: Dequeue_ok)
next
  assume a: "\<not> db_fails q (db_stmts q) \<and> rows q \<noteq> []"
  then obtain r where r: "first_by_id (rows q) = Some r"
    by (cases "first_by_id (rows q)") (simp_all add: first_by_id_None)
  from first_by_id_Some [OF r] have "r \<in> set (rows q)"
    and "\<forall>r' \<in> set (rows q). row_id r \<le> row_id r'" by simp_all
  moreover from a r have "fst (Dequeue lib q) =
      (case json_Unmarshal lib (row_data r) of
         Inl err \<Rightarrow> Inl (FailedToUnmarshal err)
       | Inr d \<Rightarrow>
           Inr (Some \<lparr>ID = row_id r, msg_AppKey = row_app_key r, msg_Data = d,
                      CreatedAt = row_created_at r, Attempts = row_attempts r\<rparr>))"
    by (simp add: Dequeue_ok)
  ultimately show "\<exists>r \<in> set (rows q).
           (\<forall>r' \<in> set (rows q). row_id r \<le> row_id r')
           \<and> fst (Dequeue lib q) =
               (case json_Unmarshal lib (row_data r) of
                  Inl err \<Rightarrow> Inl (FailedToUnmarshal err)
                | Inr d \<Rightarrow>
                    Inr (Some \<lparr>ID = row_id r, msg_AppKey = row_app_key r, msg_Data = d,
                               CreatedAt = row_created_at r, Attempts = row_attempts r\<rparr>))"
    by blast
next
  fix msg
  assume "fst (Dequeue lib q) = Inr (Some msg)"
  then have "Dequeue lib q = (Inr (Some msg), snd (Dequeue lib q))"
    by (simp add: prod_eq_iff)
  from Dequeue_Some [OF this]
  show "\<exists>r \<in> set (rows q).
           (\<forall>r' \<in> set (rows q). row_id r \<le> row_id r')
           \<and> ID msg = row_id r \<and> msg_AppKey msg = row_app_key r
           \<and> json_Unmarshal lib (row_data r) = Inr (msg_Data msg)
           \<and> CreatedAt msg = row_created_at r \<and> Attempts msg = row_attempts r"
    by blast
next
  assume a: "store_ok q \<and> rows_parse lib q \<and> distinct (map row_id (rows q))"
  then have "sorted_wrt (<) (drain_ids lib (length (rows q)) q)
     \<and> set (drain_ids lib (length (rows q)) q) = row_id ` set (rows q)"
    by (intro drain_ids_ascending) simp_all
  then show "sorted_wrt (<) (drain_ids lib (length (rows q)) q)"
    and "set (drain_ids lib (length (rows q)) q) = row_id ` set (rows q)"
    by simp_all
next
  fix appKey data i q'
  assume enq: "Enqueue lib appKey data q = (Inr i, q')"
  note facts = Enqueue_Inr [OF enq]
  from facts have i: "i = next_id q" by simp
  show "\<forall>r \<in> set (rows q). row_id r < i"
    using next_id_gt_rows [of _ q] i by simp
  show "seq q < i" using next_id_gt_seq [of q] i by simp
  show "seq q' = i" using facts by simp
  show "\<exists>r. rows q' = rows q @ [r] \<and> row_id r = i" using facts by auto
  show "distinct (map row_id (rows q'))" if "distinct (map row_id (rows q))"
    using enq that by (rule Enqueue_distinct)
qed

theorem Dequeue_oldest_first_witness:
  "fst (Dequeue example_lib
          (example_queue [example_row 2 0, example_row 1 5, example_row 3 0] 10)) =
     Inr (Some \<lparr>ID = 1, msg_AppKey = ''k1'', msg_Data = [1, 2, 3], CreatedAt = 0,
                Attempts = 5\<rparr>)
   \<and> rows (snd (Dequeue example_lib
          (example_queue [example_row 2 0, example_row 1 5, example_row 3 0] 10))) =
       [example_row 2 0, example_row 1 5, example_row 3 0]
   \<and> fst (Dequeue example_lib (example_queue [] 10)) = Inr None
   \<and> drain_ids example_lib 3
        (example_queue [example_row 2 0, example_row 1 5, example_row 3 0] 10) = [1, 2, 3]
   \<and> sorted_wrt (<) (drain_ids example_lib 3
        (example_queue [example_row 2 0, example_row 1 5, example_row 3 0] 10))"
proof -
  let ?q = "example_queue [example_row 2 0, example_row 1 5, example_row 3 0] 10"
  let ?e = "example_queue [] 10"
  note C6 = Dequeue_oldest_first [of example_lib ?q]
  note C6_empty = Dequeue_oldest_first [of example_lib ?e]
  have q: "rows ?q = [example_row 2 0, example_row 1 5, example_row 3 0]"
    "store_ok ?q" "rows_parse example_lib ?q" "distinct (map row_id (rows ?q))"
    by (simp_all add: example_queue_def example_row_def example_lib_def store_ok_def
        rows_parse_def)
  have a: "fst (Dequeue example_lib ?q) =
     Inr (Some \<lparr>ID = 1, msg_AppKey = ''k1'', msg_Data = [1, 2, 3], CreatedAt = 0,
                Attempts = 5\<rparr>)"
    by (simp add: Dequeue_def db_exec_def example_queue_def example_row_def example_lib_def)
  from C6 have "rows (snd (Dequeue example_lib ?q)) = rows ?q"
    by (rule conjunct1 [OF conjunct2])
  then have b: "rows (snd (Dequeue example_lib ?q)) =
      [example_row 2 0, example_row 1 5, example_row 3 0]"
    by (simp only: q)
  have "\<not> db_fails ?e (db_stmts ?e) \<and> rows ?e = []"
    by (simp add: example_queue_def)
  with C6_empty have c: "fst (Dequeue example_lib ?e) = Inr None"
    by blast
  have d: "drain_ids example_lib 3 ?q = [1, 2, 3]"
    by (simp add: numeral_3_eq_3 Dequeue_def Remove_def db_exec_def example_queue_def
        example_row_def example_lib_def)
  from C6 q have e: "sorted_wrt (<) (drain_ids example_lib (length (rows ?q)) ?q)"
    by blast
  have "length (rows ?q) = 3" by (simp add: q)
  with e have "sorted_wrt (<) (drain_ids example_lib 3 ?q)" by simp
  with a b c d show ?thesis by simp
qed

section \<open>The drain cycle\<close>


lemma processQueue_step_success:
  "Dequeue lib q = (Inr (Some msg), q1) \<Longrightarrow>
   Send lib cfg (msg_AppKey msg) (msg_Data msg) w = (result, w1) \<Longrightarrow>
   Success result \<Longrightarrow>
   processQueue_step lib cfg (w, q) = Continue (w1, snd (Remove (ID msg) q1))"
  by (simp add: processQueue_step_def)

lemma processQueue_step_drop:
  "Dequeue lib q = (Inr (Some msg), q1) \<Longrightarrow>
   Send lib cfg (msg_AppKey msg) (msg_Data msg) w = (result, w1) \<Longrightarrow>
   \<not> Success result \<Longrightarrow>
   \<not> Retry result \<or> int64_mul (RetryAttempts (Nexus cfg)) 3 \<le> Attempts msg \<Longrightarrow>
   processQueue_step lib cfg (w, q) = Continue (w1, snd (Remove (ID msg) q1))"
  by (simp add: processQueue_step_def)

lemma processQueue_step_retry_later:
  "Dequeue lib q = (Inr (Some msg), q1) \<Longrightarrow>
   Send lib cfg (msg_AppKey msg) (msg_Data msg) w = (result, w1) \<Longrightarrow>
   \<not> Success result \<Longrightarrow> Retry result \<Longrightarrow>
   Attempts msg < int64_mul (RetryAttempts (Nexus cfg)) 3 \<Longrightarrow>
   processQueue_step lib cfg (w, q) = Break (w1, snd (IncrementAttempts (ID msg) q1))"
  by (simp add: processQueue_step_def)

lemma processQueue_step_empty:
  "fst (Dequeue lib q) = Inr None \<Longrightarrow>
   processQueue_step lib cfg (w, q) = Break (w, snd (Dequeue lib q))"
  by (cases "Dequeue lib q") (simp add: processQueue_step_def)

lemma processQueue_step_error:
  "fst (Dequeue lib q) = Inl err \<Longrightarrow>
   processQueue_step lib cfg (w, q) = Break (w, snd (Dequeue lib q))"
  by (cases "Dequeue lib q") (simp add: processQueue_step_def)

lemma processQueue_cycle_Break:
  "processQueue_step lib cfg s = Break s' \<Longrightarrow> processQueue_cycle lib cfg s = Some s'"
  by (subst processQueue_cycle.simps) simp

lemma processQueue_cycle_Continue:
  "processQueue_step lib cfg s = Continue s' \<Longrightarrow>
   processQueue_cycle lib cfg s = processQueue_cycle lib cfg s'"
  by (subst processQueue_cycle.simps) simp












subsection \<open>The drain cycle ends when the store works\<close>

lemma processQueue_cycle_returns:
  "store_ok q \<Longrightarrow> rows_parse lib q \<Longrightarrow> \<exists>s'. processQueue_cycle lib cfg (w, q) = Some s'"
proof (induction "length (rows q)" arbitrary: w q rule: less_induct)
  case less
  from less.prems have ok: "\<not> db_fails q k" for k by (simp add: store_ok_def)
  show ?case
  proof (cases "first_by_id (rows q)")
    case None
    then have "fst (Dequeue lib q) = Inr None" using ok by (simp add: Dequeue_ok)
    then have "processQueue_step lib cfg (w, q) = Break (w, snd (Dequeue lib q))"
      by (rule processQueue_step_empty)
    then show ?thesis by (simp add: processQueue_cycle_Break)
  next
    case (Some r)
    from first_by_id_Some [OF Some] have mem: "r \<in> set (rows q)" by simp
    with less.prems obtain d where d: "json_Unmarshal lib (row_data r) = Inr d"
      by (auto simp: rows_parse_def)
    let ?msg = "\<lparr>ID = row_id r, msg_AppKey = row_app_key r, msg_Data = d,
                 CreatedAt = row_created_at r, Attempts = row_attempts r\<rparr>"
    let ?q1 = "q\<lparr>db_stmts := Suc (db_stmts q)\<rparr>"
    let ?q2 = "q\<lparr>db_stmts := Suc (Suc (db_stmts q)),
                 rows := filter (\<lambda>x. row_id x \<noteq> row_id r) (rows q)\<rparr>"
    have deq: "Dequeue lib q = (Inr (Some ?msg), ?q1)"
      using ok Some d by (simp add: Dequeue_ok)
    have rem: "snd (Remove (ID ?msg) ?q1) = ?q2"
      using ok by (simp add: Remove_ok)
    obtain result w1 where
      send: "Send lib cfg (msg_AppKey ?msg) (msg_Data ?msg) w = (result, w1)"
      by (cases "Send lib cfg (msg_AppKey ?msg) (msg_Data ?msg) w")
    have shorter: "length (rows ?q2) < length (rows q)"
      using mem by (simp add: length_filter_less)
    have "store_ok ?q2" "rows_parse lib ?q2"
      using less.prems by (simp_all add: store_ok_def rows_parse_def)
    with less.hyps [OF shorter] have
      IH: "\<exists>s'. processQueue_cycle lib cfg (w1, ?q2) = Some s'"
      by simp
    consider (sent) "Success result"
      | (dropped) "\<not> Success result"
          "\<not> Retry result \<or> int64_mul (RetryAttempts (Nexus cfg)) 3 \<le> Attempts ?msg"
      | (later) "\<not> Success result" "Retry result"
          "Attempts ?msg < int64_mul (RetryAttempts (Nexus cfg)) 3"
      by fastforce
    then show ?thesis
    proof cases
      case sent
      with deq send have "processQueue_step lib cfg (w, q) =
                            Continue (w1, snd (Remove (ID ?msg) ?q1))"
        by (rule processQueue_step_success)
      then have "processQueue_cycle lib cfg (w, q) = processQueue_cycle lib cfg (w1, ?q2)"
        unfolding rem by (rule processQueue_cycle_Continue)
      with IH show ?thesis by simp
    next
      case dropped
      with deq send have "processQueue_step lib cfg (w, q) =
                            Continue (w1, snd (Remove (ID ?msg) ?q1))"
        by (intro processQueue_step_drop)
      then have "processQueue_cycle lib cfg (w, q) = processQueue_cycle lib cfg (w1, ?q2)"
        unfolding rem by (rule processQueue_cycle_Continue)
      with IH show ?thesis by simp
    next
      case later
      with deq send have "processQueue_step lib cfg (w, q) =
                            Break (w1, snd (IncrementAttempts (ID ?msg) ?q1))"
        by (intro processQueue_step_retry_later)
      then show ?thesis by (simp add: processQueue_cycle_Break)
    qed
  qed
qed

end
